theory Spec2Isabelle
  imports Main "HOL-Library.Multiset" "HOL-Library.Option_ord"
begin

section \<open>Values crossing the HTTP and SQL boundaries\<close>

text \<open>
  The backend (\<^verbatim>\<open>backend/server.js\<close>) is an Express route table over one SQLite
  connection. Request bodies are parsed JSON, so the fields a handler destructures are
  JavaScript values; \<open>JUndefined\<close> is a missing property. JSON numbers are modelled by
  integers, and every object or array by the one value \<open>JObject\<close> (the handlers only test
  such a value for truthiness and hand it to the driver).
\<close>

datatype jsval = JUndefined | JNull | JBool bool | JNum int | JStr string | JObject

text \<open>JavaScript truthiness, as used by \<^verbatim>\<open>!cat_id\<close> and \<^verbatim>\<open>!vote_type\<close>.\<close>

fun truthy :: "jsval \<Rightarrow> bool" where
  "truthy JUndefined = False"
| "truthy JNull = False"
| "truthy (JBool b) = b"
| "truthy (JNum n) = (n \<noteq> 0)"
| "truthy (JStr s) = (s \<noteq> [])"
| "truthy JObject = True"

text \<open>\<^verbatim>\<open>Array.prototype.includes\<close> on an array of strings: strict equality with an element.\<close>

definition array_includes :: "jsval list \<Rightarrow> jsval \<Rightarrow> bool" where
  "array_includes xs v = (v \<in> set xs)"

text \<open>The values SQLite stores: NULL, an integer or a text.\<close>

datatype sqlval = SqlNull | SqlInt int | SqlText string

text \<open>
  How the driver binds a JavaScript value to a \<^verbatim>\<open>?\<close> placeholder: strings as text,
  numbers and booleans as integers, \<^verbatim>\<open>null\<close> and \<^verbatim>\<open>undefined\<close> as NULL, any other
  object through its string form.
\<close>

fun bind_param :: "jsval \<Rightarrow> sqlval" where
  "bind_param JUndefined = SqlNull"
| "bind_param JNull = SqlNull"
| "bind_param (JBool b) = SqlInt (if b then 1 else 0)"
| "bind_param (JNum n) = SqlInt n"
| "bind_param (JStr s) = SqlText s"
| "bind_param JObject = SqlText ''[object Object]''"

text \<open>
  The statements the program sends to the connection once the tables exist, with their
  bound parameters, in the order of the source: the pragma of the open callback, the
  aggregation of \<^verbatim>\<open>GET /api/cats\<close>, the lookup of \<^verbatim>\<open>GET /api/winner\<close>, the two inserts
  and the three deletes. (\<^verbatim>\<open>CREATE TABLE IF NOT EXISTS\<close> touches no row.)
\<close>

datatype stmt =
    PragmaForeignKeysOn
  | SelectCatsWithVotes
  | SelectWinner string
  | InsertVote jsval jsval
  | InsertOrIgnoreCat jsval jsval
  | DeleteVotes
  | DeleteMonthlyWinners
  | DeleteCats

datatype sql_error = SqlConstraint | SqlFailure

text \<open>
  What the storage engine contributes and the repository does not contain: which statements
  fail for a reason outside the data (I/O error, database never opened), and the two
  conversions of SQLite's column affinity (a text that reads as an integer stored in an
  INTEGER column, an integer stored in a TEXT column). All three are parameters.
\<close>

record engine =
  fault :: "stmt \<Rightarrow> bool"
  text_to_int :: "string \<Rightarrow> int option"
  int_to_text :: "int \<Rightarrow> string"

fun integer_column :: "engine \<Rightarrow> sqlval \<Rightarrow> sqlval" where
  "integer_column E (SqlText t) = (case text_to_int E t of Some n \<Rightarrow> SqlInt n | None \<Rightarrow> SqlText t)"
| "integer_column E v = v"

text \<open>The value stored in a TEXT column; \<open>None\<close> is NULL.\<close>

fun text_column :: "engine \<Rightarrow> sqlval \<Rightarrow> string option" where
  "text_column E SqlNull = None"
| "text_column E (SqlInt n) = Some (int_to_text E n)"
| "text_column E (SqlText t) = Some t"

section \<open>The Store: three tables and the connection's foreign-key switch\<close>

text \<open>
  The rows of \<^verbatim>\<open>initializeDatabase\<close>. The \<^verbatim>\<open>created_at\<close> columns are written by
  default only and read by no query, and are left out. \<open>vote_cat_id\<close> is the stored
  value of an INTEGER column that receives client input; \<open>mw_upvote_count\<close> may be NULL.
\<close>

record cat =
  cat_id :: int
  cat_image_url :: string
  cat_external_id :: "string option"

record vote =
  vote_id :: int
  vote_cat_id :: sqlval
  vote_type :: string

record monthly_winner =
  mw_id :: int
  mw_cat_id :: int
  mw_month_year :: string
  mw_upvote_count :: "int option"

text \<open>
  The tables in rowid order, the AUTOINCREMENT counters of \<^verbatim>\<open>cats\<close> and \<^verbatim>\<open>votes\<close>, and
  whether \<^verbatim>\<open>PRAGMA foreign_keys = ON\<close> took effect on this connection.
\<close>

record store =
  cats :: "cat list"
  votes :: "vote list"
  monthly_winners :: "monthly_winner list"
  cats_seq :: int
  votes_seq :: int
  foreign_keys :: bool

definition empty_store :: store where
  "empty_store = \<lparr>cats = [], votes = [], monthly_winners = [], cats_seq = 0, votes_seq = 0,
     foreign_keys = True\<rparr>"

text \<open>AUTOINCREMENT: one more than the largest rowid the table has ever held.\<close>

definition next_rowid :: "int \<Rightarrow> int list \<Rightarrow> int" where
  "next_rowid seq ids = fold max ids seq + 1"

subsection \<open>The aggregation query of \<^verbatim>\<open>GET /api/cats\<close>\<close>

record cat_row =
  row_id :: int
  row_image_url :: string
  row_upvotes :: int
  row_downvotes :: int

text \<open>
  \<^verbatim>\<open>FROM cats LEFT JOIN votes ON cats.id = votes.cat_id\<close>: the rows joined to one cat are
  its votes, or a single row whose vote columns are NULL (\<open>None\<close>) when it has none.
\<close>

definition left_join_votes :: "vote list \<Rightarrow> cat \<Rightarrow> vote option list" where
  "left_join_votes vs c =
     (case filter (\<lambda>v. vote_cat_id v = SqlInt (cat_id c)) vs of
        [] \<Rightarrow> [None]
      | m # ms \<Rightarrow> map Some (m # ms))"

text \<open>
  \<^verbatim>\<open>CASE WHEN votes.vote_type = t THEN 1 ELSE 0 END\<close>: on the NULL row the comparison is
  NULL and the ELSE branch is taken.
\<close>

fun case_when_type :: "string \<Rightarrow> vote option \<Rightarrow> int" where
  "case_when_type t None = 0"
| "case_when_type t (Some v) = (if vote_type v = t then 1 else 0)"

text \<open>\<^verbatim>\<open>GROUP BY cats.id\<close>: \<^verbatim>\<open>id\<close> is the primary key, so each cat is its own group.\<close>

definition group_row :: "vote list \<Rightarrow> cat \<Rightarrow> cat_row" where
  "group_row vs c =
     \<lparr>row_id = cat_id c, row_image_url = cat_image_url c,
      row_upvotes = sum_list (map (case_when_type ''upvote'') (left_join_votes vs c)),
      row_downvotes = sum_list (map (case_when_type ''downvote'') (left_join_votes vs c))\<rparr>"

text \<open>
  \<^verbatim>\<open>ORDER BY key DESC\<close>. SQL leaves the order of rows with equal keys open; the model
  fixes one.
\<close>

definition order_by_desc :: "('a \<Rightarrow> 'k::linorder) \<Rightarrow> 'a list \<Rightarrow> 'a list" where
  "order_by_desc key xs = rev (sort_key key xs)"

definition select_cats :: "store \<Rightarrow> cat_row list" where
  "select_cats s = order_by_desc row_upvotes (map (group_row (votes s)) (cats s))"

subsection \<open>The lookup query of \<^verbatim>\<open>GET /api/winner\<close>\<close>

record winner_row =
  win_id :: int
  win_image_url :: string
  win_upvote_count :: "int option"

text \<open>\<^verbatim>\<open>FROM monthly_winners JOIN cats ON monthly_winners.cat_id = cats.id\<close>.\<close>

definition join_cats :: "cat list \<Rightarrow> monthly_winner list \<Rightarrow> (monthly_winner \<times> cat) list" where
  "join_cats cs ws = concat (map (\<lambda>w. map (\<lambda>c. (w, c)) (filter (\<lambda>c. mw_cat_id w = cat_id c) cs)) ws)"

text \<open>
  \<^verbatim>\<open>WHERE month_year = ? ORDER BY upvote_count DESC LIMIT 1\<close>, read with \<^verbatim>\<open>db.get\<close>: the
  first row, or none. NULL sorts below every integer, as \<open>None\<close> does below \<open>Some\<close>.
\<close>

definition select_winner :: "string \<Rightarrow> store \<Rightarrow> winner_row option" where
  "select_winner m s =
     (case order_by_desc (\<lambda>(w, c). mw_upvote_count w)
             (filter (\<lambda>(w, c). mw_month_year w = m) (join_cats (cats s) (monthly_winners s))) of
        [] \<Rightarrow> None
      | (w, c) # _ \<Rightarrow>
          Some \<lparr>win_id = cat_id c, win_image_url = cat_image_url c,
                win_upvote_count = mw_upvote_count w\<rparr>)"

subsection \<open>The writing statements\<close>

text \<open>
  \<^verbatim>\<open>INSERT INTO votes (cat_id, vote_type) VALUES (?, ?)\<close>: both columns are NOT NULL, and
  with foreign keys on \<^verbatim>\<open>cat_id\<close> must be the id of a cat.
\<close>

definition insert_vote :: "engine \<Rightarrow> jsval \<Rightarrow> jsval \<Rightarrow> store \<Rightarrow> sql_error + store" where
  "insert_vote E p_cat p_type s =
     (let cid = integer_column E (bind_param p_cat) in
      case text_column E (bind_param p_type) of
        None \<Rightarrow> Inl SqlConstraint
      | Some t \<Rightarrow>
          if cid = SqlNull then Inl SqlConstraint
          else if foreign_keys s \<and> \<not> (\<exists>c \<in> set (cats s). cid = SqlInt (cat_id c))
            then Inl SqlConstraint
          else
            (let n = next_rowid (votes_seq s) (map vote_id (votes s)) in
             Inr (s\<lparr>votes := votes s @ [\<lparr>vote_id = n, vote_cat_id = cid, vote_type = t\<rparr>],
                     votes_seq := n\<rparr>)))"

text \<open>
  \<^verbatim>\<open>INSERT OR IGNORE INTO cats (image_url, external_id) VALUES (?, ?)\<close>: a row that
  violates NOT NULL on \<^verbatim>\<open>image_url\<close> or UNIQUE on \<^verbatim>\<open>external_id\<close> is skipped without an
  error. NULL external ids never conflict. The rowid is drawn before the constraints are
  checked, so a skipped row advances the AUTOINCREMENT counter all the same.
\<close>

definition insert_or_ignore_cat :: "engine \<Rightarrow> jsval \<Rightarrow> jsval \<Rightarrow> store \<Rightarrow> store" where
  "insert_or_ignore_cat E p_url p_ext s =
     (let ext = text_column E (bind_param p_ext);
          n = next_rowid (cats_seq s) (map cat_id (cats s)) in
      case text_column E (bind_param p_url) of
        None \<Rightarrow> s\<lparr>cats_seq := n\<rparr>
      | Some u \<Rightarrow>
          if ext \<noteq> None \<and> ext \<in> set (map cat_external_id (cats s))
          then s\<lparr>cats_seq := n\<rparr>
          else s\<lparr>cats := cats s @ [\<lparr>cat_id = n, cat_image_url = u, cat_external_id = ext\<rparr>],
                 cats_seq := n\<rparr>)"

text \<open>
  \<^verbatim>\<open>DELETE FROM cats\<close>: with foreign keys on it fails while a vote or a monthly winner
  still references a cat.
\<close>

definition delete_cats :: "store \<Rightarrow> sql_error + store" where
  "delete_cats s =
     (if foreign_keys s \<and>
         (\<exists>c \<in> set (cats s).
            (\<exists>v \<in> set (votes s). vote_cat_id v = SqlInt (cat_id c)) \<or>
            (\<exists>w \<in> set (monthly_winners s). mw_cat_id w = cat_id c))
      then Inl SqlConstraint
      else Inr (s\<lparr>cats := []\<rparr>))"

text \<open>
  \<^verbatim>\<open>db.all\<close>, \<^verbatim>\<open>db.get\<close> and \<^verbatim>\<open>db.run\<close>: the error or the result handed to the callback.
  A statement that fails changes nothing.
\<close>

definition db_all :: "engine \<Rightarrow> store \<Rightarrow> sql_error + cat_row list" where
  "db_all E s = (if fault E SelectCatsWithVotes then Inl SqlFailure else Inr (select_cats s))"

definition db_get :: "engine \<Rightarrow> string \<Rightarrow> store \<Rightarrow> sql_error + winner_row option" where
  "db_get E m s = (if fault E (SelectWinner m) then Inl SqlFailure else Inr (select_winner m s))"

definition db_run :: "engine \<Rightarrow> stmt \<Rightarrow> store \<Rightarrow> sql_error + store" where
  "db_run E q s =
     (if fault E q then Inl SqlFailure
      else case q of
        PragmaForeignKeysOn \<Rightarrow> Inr (s\<lparr>foreign_keys := True\<rparr>)
      | InsertVote p_cat p_type \<Rightarrow> insert_vote E p_cat p_type s
      | InsertOrIgnoreCat p_url p_ext \<Rightarrow> Inr (insert_or_ignore_cat E p_url p_ext s)
      | DeleteVotes \<Rightarrow> Inr (s\<lparr>votes := []\<rparr>)
      | DeleteMonthlyWinners \<Rightarrow> Inr (s\<lparr>monthly_winners := []\<rparr>)
      | DeleteCats \<Rightarrow> delete_cats s
      | SelectCatsWithVotes \<Rightarrow> Inr s
      | SelectWinner m \<Rightarrow> Inr s)"

section \<open>The route handlers\<close>

datatype payload =
    ErrorBody string
  | CatRows "cat_row list"
  | WinnerBody "winner_row option"
  | SuccessMessage string
  | SeedCount nat
  | StatusBody string
  | UncaughtException

datatype response = Response nat payload

text \<open>
  \<open>UncaughtException\<close> is the page of Express's own error handler, sent with status 500
  when a route handler throws.
\<close>

text \<open>
  What a request leaves behind: the response sent, the Store once every statement the
  handler queued has run, and those statements in the order they were issued.
\<close>

record outcome =
  reply :: response
  store_after :: store
  issued :: "stmt list"

subsection \<open>\<^verbatim>\<open>GET /api/cats\<close>\<close>

definition listCats :: "engine \<Rightarrow> store \<Rightarrow> outcome" where
  "listCats E s =
     (case db_all E s of
        Inl err \<Rightarrow> \<lparr>reply = Response 500 (ErrorBody ''Failed to fetch cats''),
                    store_after = s, issued = [SelectCatsWithVotes]\<rparr>
      | Inr rows \<Rightarrow> \<lparr>reply = Response 200 (CatRows rows),
                     store_after = s, issued = [SelectCatsWithVotes]\<rparr>)"

subsection \<open>\<^verbatim>\<open>GET /api/winner\<close>\<close>

text \<open>
  The clock read by \<^verbatim>\<open>new Date()\<close>, in UTC. \<^verbatim>\<open>toISOString\<close> writes the year with four
  digits up to 9999 and as \<^verbatim>\<open>+YYYYYY\<close> beyond; \<^verbatim>\<open>slice(0, 7)\<close> keeps seven characters.
\<close>

record utc_time =
  year :: nat
  month :: nat
  day :: nat
  hours :: nat
  minutes :: nat
  seconds :: nat
  millis :: nat

definition digit :: "nat \<Rightarrow> char" where
  "digit n = ''0123456789'' ! (n mod 10)"

definition pad :: "nat \<Rightarrow> nat \<Rightarrow> string" where
  "pad w n = map (\<lambda>i. digit (n div 10 ^ i)) (rev [0..<w])"

definition toISOString :: "utc_time \<Rightarrow> string" where
  "toISOString d =
     (if year d \<le> 9999 then pad 4 (year d) else ''+'' @ pad 6 (year d)) @ ''-'' @
     pad 2 (month d) @ ''-'' @ pad 2 (day d) @ ''T'' @ pad 2 (hours d) @ '':'' @
     pad 2 (minutes d) @ '':'' @ pad 2 (seconds d) @ ''.'' @ pad 3 (millis d) @ ''Z''"

definition slice :: "nat \<Rightarrow> nat \<Rightarrow> string \<Rightarrow> string" where
  "slice i j str = drop i (take j str)"

definition currentMonth :: "utc_time \<Rightarrow> string" where
  "currentMonth now = slice 0 7 (toISOString now)"

definition getCurrentWinner :: "engine \<Rightarrow> utc_time \<Rightarrow> store \<Rightarrow> outcome" where
  "getCurrentWinner E now s =
     (case db_get E (currentMonth now) s of
        Inl err \<Rightarrow> \<lparr>reply = Response 500 (ErrorBody ''Failed to fetch winner''),
                    store_after = s, issued = [SelectWinner (currentMonth now)]\<rparr>
      | Inr row \<Rightarrow> \<lparr>reply = Response 200 (WinnerBody row),
                    store_after = s, issued = [SelectWinner (currentMonth now)]\<rparr>)"

subsection \<open>\<^verbatim>\<open>POST /api/votes\<close>\<close>

record vote_body =
  body_cat_id :: jsval
  body_vote_type :: jsval

definition submitVote :: "engine \<Rightarrow> store \<Rightarrow> vote_body \<Rightarrow> outcome" where
  "submitVote E s b =
     (if \<not> truthy (body_cat_id b) \<or> \<not> truthy (body_vote_type b) \<or>
         \<not> array_includes [JStr ''upvote'', JStr ''downvote''] (body_vote_type b)
      then \<lparr>reply = Response 400 (ErrorBody ''Invalid cat_id or vote_type''),
            store_after = s, issued = []\<rparr>
      else
        (let q = InsertVote (body_cat_id b) (body_vote_type b) in
         case db_run E q s of
           Inl err \<Rightarrow> \<lparr>reply = Response 500 (ErrorBody ''Failed to add vote''),
                       store_after = s, issued = [q]\<rparr>
         | Inr s' \<Rightarrow> \<lparr>reply = Response 200 (SuccessMessage ''Vote recorded''),
                      store_after = s', issued = [q]\<rparr>))"

subsection \<open>\<^verbatim>\<open>POST /api/cats\<close>\<close>

text \<open>
  An element of the \<^verbatim>\<open>cats\<close> array with the two properties the handler reads (both
  \<open>JUndefined\<close> for a number, a string or a boolean). The array holds \<open>None\<close> where its
  element is \<^verbatim>\<open>null\<close>, and the body's \<^verbatim>\<open>cats\<close> is \<open>None\<close> when it is not an array.
\<close>

record seed_item =
  item_id :: jsval
  item_url :: jsval

text \<open>
  The callback of one insert: an error is logged and the statement skipped, otherwise the
  handler's counter \<^verbatim>\<open>inserted\<close> is incremented.
\<close>

definition insert_callback :: "engine \<Rightarrow> stmt \<Rightarrow> store \<times> nat \<Rightarrow> store \<times> nat" where
  "insert_callback E q st =
     (case db_run E q (fst st) of
        Inl err \<Rightarrow> st
      | Inr s' \<Rightarrow> (s', snd st + 1))"

definition run_inserts :: "engine \<Rightarrow> stmt list \<Rightarrow> store \<times> nat \<Rightarrow> store \<times> nat" where
  "run_inserts E qs st = fold (insert_callback E) qs st"

text \<open>
  The loop of \<^verbatim>\<open>forEach\<close>: each element queues one insert. Reading \<^verbatim>\<open>cat.url\<close> of a
  \<^verbatim>\<open>null\<close> element throws a TypeError, which ends the loop: the inserts of the elements
  before it are queued, those after it never are. The result is the queue and whether the
  loop threw.
\<close>

fun forEach_insert :: "seed_item option list \<Rightarrow> stmt list \<times> bool" where
  "forEach_insert [] = ([], False)"
| "forEach_insert (None # rest) = ([], True)"
| "forEach_insert (Some c # rest) =
     (InsertOrIgnoreCat (item_url c) (item_id c) # fst (forEach_insert rest),
      snd (forEach_insert rest))"

text \<open>
  \<^verbatim>\<open>forEach\<close> only queues the inserts: the driver runs a statement and calls its callback
  on a later turn of the event loop, never inside \<^verbatim>\<open>db.run\<close>. So \<^verbatim>\<open>res.json\<close> reads
  \<^verbatim>\<open>inserted\<close> before any callback has run; the callbacks then update the Store and the
  counter. When the loop throws, \<^verbatim>\<open>res.json\<close> is not reached and Express answers 500; the
  inserts queued before the throw still run. \<open>seed_counter\<close> is the counter's value after
  the last callback. The inserts run here in the order they were issued.
\<close>

record seed_outcome = outcome +
  seed_counter :: nat

definition seedCats :: "engine \<Rightarrow> store \<Rightarrow> seed_item option list option \<Rightarrow> seed_outcome" where
  "seedCats E s body_cats =
     (case body_cats of
        None \<Rightarrow> \<lparr>reply = Response 400 (ErrorBody ''Invalid cats data''),
                 store_after = s, issued = [], seed_counter = 0\<rparr>
      | Some items \<Rightarrow>
          if length items = 0
          then \<lparr>reply = Response 400 (ErrorBody ''Invalid cats data''),
                store_after = s, issued = [], seed_counter = 0\<rparr>
          else
            (let inserted = 0;
                 queued = fst (forEach_insert items);
                 thrown = snd (forEach_insert items);
                 sent = (if thrown then Response 500 UncaughtException
                         else Response 200 (SeedCount inserted));
                 final = run_inserts E queued (s, inserted)
             in \<lparr>reply = sent, store_after = fst final, issued = queued,
                  seed_counter = snd final\<rparr>))"

subsection \<open>\<^verbatim>\<open>POST /api/clear\<close>\<close>

text \<open>A delete callback only logs an error; the Store is then as it was.\<close>

definition run_logged :: "engine \<Rightarrow> stmt \<Rightarrow> store \<Rightarrow> store" where
  "run_logged E q s = (case db_run E q s of Inl err \<Rightarrow> s | Inr s' \<Rightarrow> s')"

text \<open>
  The callback of \<^verbatim>\<open>new sqlite3.Database\<close> on a connection that opened: it turns foreign
  keys on, and only logs an error of the pragma.
\<close>

definition open_callback :: "engine \<Rightarrow> store \<Rightarrow> store" where
  "open_callback E s = run_logged E PragmaForeignKeysOn s"

text \<open>
  \<^verbatim>\<open>db.serialize\<close> runs the three deletes one after the other in the order written; the
  response is sent without waiting for them.
\<close>

definition clearAll :: "engine \<Rightarrow> store \<Rightarrow> outcome" where
  "clearAll E s =
     (let queued = [DeleteVotes, DeleteMonthlyWinners, DeleteCats];
          sent = Response 200 (SuccessMessage ''Database cleared'')
      in \<lparr>reply = sent, store_after = fold (run_logged E) queued s, issued = queued\<rparr>)"

subsection \<open>\<^verbatim>\<open>GET /api/health\<close>\<close>

definition health :: "store \<Rightarrow> outcome" where
  "health s = \<lparr>reply = Response 200 (StatusBody ''ok''), store_after = s, issued = []\<rparr>"

section \<open>The winner screen of the client\<close>

text \<open>
  \<^verbatim>\<open>WinnerScreen\<close> reduces the provider's cats to the one it displays. A count of the
  cat objects is a number or absent (\<open>None\<close>), and \<^verbatim>\<open>x || 0\<close> reads an absent one as 0.
\<close>

record client_cat =
  cc_id :: int
  cc_image_url :: string
  cc_upvotes :: "int option"
  cc_downvotes :: "int option"

fun or0 :: "int option \<Rightarrow> int" where
  "or0 None = 0"
| "or0 (Some n) = n"

definition catScore :: "client_cat \<Rightarrow> int" where
  "catScore c = or0 (cc_upvotes c) - or0 (cc_downvotes c)"

text \<open>\<^verbatim>\<open>(max?.upvotes || 0) - (max?.downvotes || 0)\<close>: zero while \<^verbatim>\<open>max\<close> is null.\<close>

fun maxScore :: "client_cat option \<Rightarrow> int" where
  "maxScore None = 0 - 0"
| "maxScore (Some m) = or0 (cc_upvotes m) - or0 (cc_downvotes m)"

definition winner_step :: "client_cat option \<Rightarrow> client_cat \<Rightarrow> client_cat option" where
  "winner_step mx c = (if catScore c > maxScore mx then Some c else mx)"

definition winner :: "client_cat list \<Rightarrow> client_cat option" where
  "winner cs = foldl winner_step None cs"

datatype screen =
    Spinner
  | WinnerCard string int int int
  | NoWinner

definition WinnerScreen :: "client_cat list \<Rightarrow> bool \<Rightarrow> screen" where
  "WinnerScreen cs loading =
     (let w = winner cs;
          winnerScore = (case w of Some c \<Rightarrow> or0 (cc_upvotes c) - or0 (cc_downvotes c) | None \<Rightarrow> 0)
      in if loading then Spinner
         else case w of
                Some c \<Rightarrow> WinnerCard (cc_image_url c) winnerScore (or0 (cc_upvotes c)) (or0 (cc_downvotes c))
              | None \<Rightarrow> NoWinner)"

section \<open>Properties referred to by the statements below\<close>

text \<open>
  The Score of the data model: the number of vote rows of one cat with one vote type.
\<close>

definition vote_count :: "string \<Rightarrow> int \<Rightarrow> vote list \<Rightarrow> nat" where
  "vote_count t i vs = length (filter (\<lambda>v. vote_cat_id v = SqlInt i \<and> vote_type v = t) vs)"

text \<open>The referential integrity of \<^verbatim>\<open>votes.cat_id\<close>.\<close>

definition votes_reference_cats :: "store \<Rightarrow> bool" where
  "votes_reference_cats s = (\<forall>v \<in> set (votes s). \<exists>c \<in> set (cats s). vote_cat_id v = SqlInt (cat_id c))"

text \<open>The non-NULL external ids held by \<^verbatim>\<open>cats\<close>, one entry per row.\<close>

definition stored_external_ids :: "cat list \<Rightarrow> string list" where
  "stored_external_ids cs = concat (map (\<lambda>c. case cat_external_id c of None \<Rightarrow> [] | Some e \<Rightarrow> [e]) cs)"

text \<open>
  The elements of a seed request whose insert is issued: those before the first
  \<^verbatim>\<open>null\<close> element.
\<close>

fun queued_items :: "seed_item option list \<Rightarrow> seed_item list" where
  "queued_items [] = []"
| "queued_items (None # rest) = []"
| "queued_items (Some c # rest) = c # queued_items rest"

text \<open>What an element of a seed request stores as \<^verbatim>\<open>external_id\<close> and as \<^verbatim>\<open>image_url\<close>.\<close>

definition seed_external_id :: "engine \<Rightarrow> seed_item \<Rightarrow> string option" where
  "seed_external_id E c = text_column E (bind_param (item_id c))"

definition seed_image_url :: "engine \<Rightarrow> seed_item \<Rightarrow> string option" where
  "seed_image_url E c = text_column E (bind_param (item_url c))"

subsection \<open>A sample engine\<close>

text \<open>
  An engine on which no statement faults, converting plain decimal integers; and the same
  engine with every statement failing.
\<close>

definition digit_value :: "char \<Rightarrow> nat option" where
  "digit_value c =
     (if c \<in> set ''0123456789'' then Some (length (takeWhile (\<lambda>d. d \<noteq> c) ''0123456789''))
      else None)"

fun parse_digits :: "string \<Rightarrow> nat \<Rightarrow> nat option" where
  "parse_digits [] acc = Some acc"
| "parse_digits (c # cs) acc =
     (case digit_value c of None \<Rightarrow> None | Some d \<Rightarrow> parse_digits cs (10 * acc + d))"

definition parse_int :: "string \<Rightarrow> int option" where
  "parse_int str =
     (case str of
        [] \<Rightarrow> None
      | c # cs \<Rightarrow>
          if c = CHR ''-'' then (if cs = [] then None else map_option (\<lambda>n. - int n) (parse_digits cs 0))
          else map_option int (parse_digits str 0))"

function show_nat :: "nat \<Rightarrow> string" where
  "show_nat n = (if n < 10 then [digit n] else show_nat (n div 10) @ [digit n])"
  by pat_completeness auto
termination
  by (relation "measure id") auto

declare show_nat.simps [simp del]

definition show_int :: "int \<Rightarrow> string" where
  "show_int i = (if i < 0 then CHR ''-'' # show_nat (nat (- i)) else show_nat (nat i))"

definition sample_engine :: engine where
  "sample_engine = \<lparr>fault = (\<lambda>q. False), text_to_int = parse_int, int_to_text = show_int\<rparr>"

definition failing_engine :: engine where
  "failing_engine = \<lparr>fault = (\<lambda>q. True), text_to_int = parse_int, int_to_text = show_int\<rparr>"

text \<open>A store with two cats; the first has two upvotes and one downvote.\<close>

definition sample_store :: store where
  "sample_store =
     \<lparr>cats = [\<lparr>cat_id = 1, cat_image_url = ''http://x/1.jpg'', cat_external_id = Some ''c1''\<rparr>,
              \<lparr>cat_id = 2, cat_image_url = ''http://x/2.jpg'', cat_external_id = Some ''c2''\<rparr>],
      votes = [\<lparr>vote_id = 1, vote_cat_id = SqlInt 1, vote_type = ''upvote''\<rparr>,
               \<lparr>vote_id = 2, vote_cat_id = SqlInt 1, vote_type = ''downvote''\<rparr>,
               \<lparr>vote_id = 3, vote_cat_id = SqlInt 1, vote_type = ''upvote''\<rparr>],
      monthly_winners = [\<lparr>mw_id = 1, mw_cat_id = 1, mw_month_year = ''2026-11'', mw_upvote_count = Some 2\<rparr>,
                         \<lparr>mw_id = 2, mw_cat_id = 2, mw_month_year = ''2026-11'', mw_upvote_count = Some 7\<rparr>,
                         \<lparr>mw_id = 3, mw_cat_id = 1, mw_month_year = ''2026-10'', mw_upvote_count = Some 9\<rparr>],
      cats_seq = 2, votes_seq = 3, foreign_keys = True\<rparr>"

definition sample_time :: utc_time where
  "sample_time = \<lparr>year = 2026, month = 11, day = 3, hours = 10, minutes = 12, seconds = 0, millis = 0\<rparr>"

section \<open>Health check\<close>

text \<open>
  C9. For every request, \<^verbatim>\<open>GET /api/health\<close> answers the constant \<open>{status: "ok"}\<close> with
  status 200, issues no statement to the Store and leaves every table unchanged.
\<close>

theorem health_constant_and_storeless:
  "reply (health s) = Response 200 (StatusBody ''ok'') \<and>
   issued (health s) = [] \<and>
   store_after (health s) = s"
  by (simp add: health_def)

section \<open>Vote aggregation\<close>

text \<open>
  The sums of the aggregation are the vote counts of the data model, and the ordering
  keeps the rows and puts a row with the largest key first.
\<close>

lemma sum_case_when_Some:
  "sum_list (map (case_when_type t) (map Some xs)) = int (length (filter (\<lambda>v. vote_type v = t) xs))"
  by (induction xs) simp_all

lemma left_join_sum:
  "sum_list (map (case_when_type t) (left_join_votes vs c)) = int (vote_count t (cat_id c) vs)"
proof -
  let ?F = "filter (\<lambda>v. vote_cat_id v = SqlInt (cat_id c)) vs"
  have cnt: "vote_count t (cat_id c) vs = length (filter (\<lambda>v. vote_type v = t) ?F)"
    by (simp add: vote_count_def conj_commute)
  show ?thesis
  proof (cases ?F)
    case Nil
    then show ?thesis by (simp add: left_join_votes_def cnt)
  next
    case (Cons m ms)
    then have "left_join_votes vs c = map Some ?F"
      by (simp add: left_join_votes_def)
    then show ?thesis by (simp only: sum_case_when_Some cnt)
  qed
qed

lemma group_row_counts:
  "group_row vs c =
     \<lparr>row_id = cat_id c, row_image_url = cat_image_url c,
      row_upvotes = int (vote_count ''upvote'' (cat_id c) vs),
      row_downvotes = int (vote_count ''downvote'' (cat_id c) vs)\<rparr>"
  by (simp add: group_row_def left_join_sum)

lemma vote_count_as_multiplicity:
  "vote_count t i vs = count (mset (map (\<lambda>v. (vote_cat_id v, vote_type v)) vs)) (SqlInt i, t)"
  by (induction vs) (auto simp: vote_count_def)

lemma vote_count_none:
  "\<forall>v \<in> set vs. vote_cat_id v \<noteq> SqlInt i \<Longrightarrow> vote_count t i vs = 0"
  by (simp add: vote_count_def)

lemma mset_order_by_desc: "mset (order_by_desc k xs) = mset xs"
  by (simp add: order_by_desc_def)

lemma set_order_by_desc: "set (order_by_desc k xs) = set xs"
  by (simp add: order_by_desc_def)

lemma order_by_desc_descending: "sorted (map k (rev (order_by_desc k xs)))"
  by (simp add: order_by_desc_def)

lemma order_by_desc_head:
  assumes "order_by_desc k xs = y # ys"
  shows "y \<in> set xs \<and> (\<forall>x \<in> set xs. k x \<le> k y)"
proof -
  from assms have sk: "sort_key k xs = rev ys @ [y]"
    by (simp add: order_by_desc_def rev_eq_Cons_iff)
  have "set (sort_key k xs) = set xs" by simp
  with sk have mem: "set xs = insert y (set ys)" by auto
  have "sorted (map k (sort_key k xs))" by simp
  with sk have "\<forall>x \<in> set ys. k x \<le> k y"
    by (simp add: sorted_append)
  with mem show ?thesis by auto
qed

text \<open>
  C1. For every Store and every cat, when the query does not fail, \<^verbatim>\<open>GET /api/cats\<close>
  answers 200 with one row per cat carrying the cat's id and image url, the number of its
  vote rows of type \<open>upvote\<close> as upvotes and the number of type \<open>downvote\<close> as downvotes; a
  cat without vote rows appears with 0 and 0; the rows descend by upvotes; and any Store
  with the same cats and the same votes in another order gets the same answer.
\<close>

theorem listCats_reports_scores:
  assumes "\<not> fault E SelectCatsWithVotes"
  shows "\<exists>rows. reply (listCats E s) = Response 200 (CatRows rows) \<and>
           mset rows = mset (map (\<lambda>c. \<lparr>row_id = cat_id c, row_image_url = cat_image_url c,
                                       row_upvotes = int (vote_count ''upvote'' (cat_id c) (votes s)),
                                       row_downvotes = int (vote_count ''downvote'' (cat_id c) (votes s))\<rparr>)
                               (cats s)) \<and>
           (\<forall>c \<in> set (cats s). (\<forall>v \<in> set (votes s). vote_cat_id v \<noteq> SqlInt (cat_id c)) \<longrightarrow>
                \<lparr>row_id = cat_id c, row_image_url = cat_image_url c,
                 row_upvotes = 0, row_downvotes = 0\<rparr> \<in> set rows) \<and>
           sorted (map row_upvotes (rev rows)) \<and>
           (\<forall>s'. cats s' = cats s \<and>
                 mset (map (\<lambda>v. (vote_cat_id v, vote_type v)) (votes s')) =
                 mset (map (\<lambda>v. (vote_cat_id v, vote_type v)) (votes s)) \<longrightarrow>
                 reply (listCats E s') = Response 200 (CatRows rows))"
proof -
  let ?score = "\<lambda>vs c. \<lparr>row_id = cat_id c, row_image_url = cat_image_url c,
                        row_upvotes = int (vote_count ''upvote'' (cat_id c) vs),
                        row_downvotes = int (vote_count ''downvote'' (cat_id c) vs)\<rparr>"
  let ?rows = "select_cats s"
  have sel: "\<And>x. select_cats x = order_by_desc row_upvotes (map (?score (votes x)) (cats x))"
    by (simp add: select_cats_def group_row_counts [abs_def])
  have r: "reply (listCats E s) = Response 200 (CatRows ?rows)"
    using assms by (simp add: listCats_def db_all_def)
  have m: "mset ?rows = mset (map (?score (votes s)) (cats s))"
    by (simp only: sel mset_order_by_desc)
  have z: "\<forall>c \<in> set (cats s). (\<forall>v \<in> set (votes s). vote_cat_id v \<noteq> SqlInt (cat_id c)) \<longrightarrow>
                \<lparr>row_id = cat_id c, row_image_url = cat_image_url c,
                 row_upvotes = 0, row_downvotes = 0\<rparr> \<in> set ?rows"
  proof (intro ballI impI)
    fix c assume c: "c \<in> set (cats s)"
      and nv: "\<forall>v \<in> set (votes s). vote_cat_id v \<noteq> SqlInt (cat_id c)"
    have "?score (votes s) c \<in> set ?rows"
      using c by (simp only: sel set_order_by_desc) simp
    then show "\<lparr>row_id = cat_id c, row_image_url = cat_image_url c,
                 row_upvotes = 0, row_downvotes = 0\<rparr> \<in> set ?rows"
      by (simp add: vote_count_none [OF nv])
  qed
  have d: "sorted (map row_upvotes (rev ?rows))"
    by (simp only: select_cats_def order_by_desc_descending)
  have p: "\<forall>s'. cats s' = cats s \<and>
                 mset (map (\<lambda>v. (vote_cat_id v, vote_type v)) (votes s')) =
                 mset (map (\<lambda>v. (vote_cat_id v, vote_type v)) (votes s)) \<longrightarrow>
                 reply (listCats E s') = Response 200 (CatRows ?rows)"
  proof (intro allI impI)
    fix s' :: store assume h: "cats s' = cats s \<and>
                 mset (map (\<lambda>v. (vote_cat_id v, vote_type v)) (votes s')) =
                 mset (map (\<lambda>v. (vote_cat_id v, vote_type v)) (votes s))"
    then have "\<And>t i. vote_count t i (votes s') = vote_count t i (votes s)"
      by (simp add: vote_count_as_multiplicity)
    with h have "select_cats s' = select_cats s"
      by (simp add: sel)
    then show "reply (listCats E s') = Response 200 (CatRows ?rows)"
      using assms by (simp add: listCats_def db_all_def)
  qed
  from r m z d p show ?thesis by blast
qed

text \<open>The theorem at the sample store, and at the sample store with its votes reversed.\<close>

theorem listCats_reports_scores_witness:
  "\<not> fault sample_engine SelectCatsWithVotes \<and>
   (\<exists>rows. reply (listCats sample_engine sample_store) = Response 200 (CatRows rows) \<and>
      mset rows = {#\<lparr>row_id = 1, row_image_url = ''http://x/1.jpg'', row_upvotes = 2, row_downvotes = 1\<rparr>,
                    \<lparr>row_id = 2, row_image_url = ''http://x/2.jpg'', row_upvotes = 0, row_downvotes = 0\<rparr>#} \<and>
      reply (listCats sample_engine (sample_store\<lparr>votes := rev (votes sample_store)\<rparr>))
        = Response 200 (CatRows rows))"
proof -
  have nf: "\<not> fault sample_engine SelectCatsWithVotes"
    by (simp add: sample_engine_def)
  from listCats_reports_scores [OF nf, of sample_store]
  obtain rows where r: "reply (listCats sample_engine sample_store) = Response 200 (CatRows rows)"
    and m: "mset rows = mset (map (\<lambda>c. \<lparr>row_id = cat_id c, row_image_url = cat_image_url c,
                                       row_upvotes = int (vote_count ''upvote'' (cat_id c) (votes sample_store)),
                                       row_downvotes = int (vote_count ''downvote'' (cat_id c) (votes sample_store))\<rparr>)
                               (cats sample_store))"
    and p: "\<forall>s'. cats s' = cats sample_store \<and>
                 mset (map (\<lambda>v. (vote_cat_id v, vote_type v)) (votes s')) =
                 mset (map (\<lambda>v. (vote_cat_id v, vote_type v)) (votes sample_store)) \<longrightarrow>
                 reply (listCats sample_engine s') = Response 200 (CatRows rows)"
    by blast
  have "reply (listCats sample_engine (sample_store\<lparr>votes := rev (votes sample_store)\<rparr>))
        = Response 200 (CatRows rows)"
    using p [rule_format, of "sample_store\<lparr>votes := rev (votes sample_store)\<rparr>"]
    by (simp add: rev_map [symmetric])
  moreover have "mset rows = {#\<lparr>row_id = 1, row_image_url = ''http://x/1.jpg'', row_upvotes = 2, row_downvotes = 1\<rparr>,
                    \<lparr>row_id = 2, row_image_url = ''http://x/2.jpg'', row_upvotes = 0, row_downvotes = 0\<rparr>#}"
    unfolding m by (simp add: sample_store_def vote_count_def)
  ultimately show ?thesis using nf r by blast
qed

section \<open>The monthly winner\<close>

lemma length_pad: "length (pad w n) = w"
  by (simp add: pad_def)

lemma currentMonth_format:
  "year now \<le> 9999 \<Longrightarrow> currentMonth now = pad 4 (year now) @ ''-'' @ pad 2 (month now)"
  by (simp add: currentMonth_def slice_def toISOString_def length_pad)

lemma order_by_desc_Nil: "(order_by_desc k xs = []) = (xs = [])"
proof -
  have "length (order_by_desc k xs) = length xs"
    by (simp add: order_by_desc_def)
  then show ?thesis by (metis length_0_conv)
qed

lemma set_join_cats:
  "set (join_cats cs ws) = {(w, c). w \<in> set ws \<and> c \<in> set cs \<and> mw_cat_id w = cat_id c}"
  by (auto simp: join_cats_def)

text \<open>
  C4, as stated, at the sample time (November 2026) and the sample store with other monthly
  winners. With two rows of the month, one of count 50 for a cat id that no cat has and one
  of count 2 for cat 1, the answer is the row of count 2, not the maximum; with the row of
  count 50 alone, the month has a row and the answer is null. Nothing in the program
  writes \<^verbatim>\<open>monthly_winners\<close>, and the inner join drops a row without its cat.
\<close>

theorem getCurrentWinner_orphan_row_counterexample:
  "currentMonth sample_time = ''2026-11'' \<and>
   reply (getCurrentWinner sample_engine sample_time
            (sample_store\<lparr>monthly_winners :=
               [\<lparr>mw_id = 1, mw_cat_id = 9, mw_month_year = ''2026-11'', mw_upvote_count = Some 50\<rparr>,
                \<lparr>mw_id = 2, mw_cat_id = 1, mw_month_year = ''2026-11'', mw_upvote_count = Some 2\<rparr>]\<rparr>))
     = Response 200 (WinnerBody (Some \<lparr>win_id = 1, win_image_url = ''http://x/1.jpg'',
                                     win_upvote_count = Some 2\<rparr>)) \<and>
   reply (getCurrentWinner sample_engine sample_time
            (sample_store\<lparr>monthly_winners :=
               [\<lparr>mw_id = 1, mw_cat_id = 9, mw_month_year = ''2026-11'', mw_upvote_count = Some 50\<rparr>]\<rparr>))
     = Response 200 (WinnerBody None)"
proof -
  have m11: "currentMonth sample_time = ''2026-11''"
    by (simp add: currentMonth_format sample_time_def) (simp add: pad_def digit_def upt_rec)
  show ?thesis
    unfolding m11 getCurrentWinner_def db_get_def
    by (simp add: m11 sample_engine_def sample_store_def select_winner_def join_cats_def
          order_by_desc_def)
qed

text \<open>
  C4, amended. For every Store, when the query does not fail: the key looked up is the
  clock's UTC year and month as \<^verbatim>\<open>YYYY-MM\<close> (for years up to 9999); \<^verbatim>\<open>GET /api/winner\<close>
  answers null when no row of \<^verbatim>\<open>monthly_winners\<close> has that key and references an existing
  cat; and when some row does, the answer is one record, built from a row of that month
  whose \<^verbatim>\<open>upvote_count\<close> is maximal among the month's rows that reference an existing cat,
  and from the id and image url of the cat that row references.
\<close>

theorem getCurrentWinner_null_or_maximum:
  assumes nf: "\<not> fault E (SelectWinner (currentMonth now))"
  shows "(year now \<le> 9999 \<longrightarrow> currentMonth now = pad 4 (year now) @ ''-'' @ pad 2 (month now)) \<and>
         ((\<forall>w \<in> set (monthly_winners s). mw_month_year w = currentMonth now \<longrightarrow>
              (\<forall>c \<in> set (cats s). cat_id c \<noteq> mw_cat_id w)) \<longrightarrow>
            reply (getCurrentWinner E now s) = Response 200 (WinnerBody None)) \<and>
         ((\<exists>w \<in> set (monthly_winners s). mw_month_year w = currentMonth now \<and>
              (\<exists>c \<in> set (cats s). cat_id c = mw_cat_id w)) \<longrightarrow>
            (\<exists>w \<in> set (monthly_winners s). \<exists>c \<in> set (cats s).
               mw_month_year w = currentMonth now \<and> cat_id c = mw_cat_id w \<and>
               (\<forall>w' \<in> set (monthly_winners s).
                  mw_month_year w' = currentMonth now \<and>
                  (\<exists>c' \<in> set (cats s). cat_id c' = mw_cat_id w') \<longrightarrow>
                  mw_upvote_count w' \<le> mw_upvote_count w) \<and>
               reply (getCurrentWinner E now s) =
                 Response 200 (WinnerBody (Some \<lparr>win_id = cat_id c, win_image_url = cat_image_url c,
                                                 win_upvote_count = mw_upvote_count w\<rparr>))))"
proof -
  let ?m = "currentMonth now"
  let ?J = "filter (\<lambda>(w, c). mw_month_year w = ?m) (join_cats (cats s) (monthly_winners s))"
  let ?key = "\<lambda>(w, c). mw_upvote_count w"
  have rep: "reply (getCurrentWinner E now s) = Response 200 (WinnerBody (select_winner ?m s))"
    using nf by (simp add: getCurrentWinner_def db_get_def)
  have memJ: "\<And>w c. (w, c) \<in> set ?J \<longleftrightarrow>
                 w \<in> set (monthly_winners s) \<and> c \<in> set (cats s) \<and>
                 mw_cat_id w = cat_id c \<and> mw_month_year w = ?m"
    by (auto simp: set_join_cats)
  have none: "(\<forall>w \<in> set (monthly_winners s). mw_month_year w = ?m \<longrightarrow>
              (\<forall>c \<in> set (cats s). cat_id c \<noteq> mw_cat_id w)) \<longrightarrow>
            reply (getCurrentWinner E now s) = Response 200 (WinnerBody None)"
  proof
    assume "\<forall>w \<in> set (monthly_winners s). mw_month_year w = ?m \<longrightarrow>
              (\<forall>c \<in> set (cats s). cat_id c \<noteq> mw_cat_id w)"
    then have "\<And>w c. (w, c) \<notin> set ?J" by (simp only: memJ) metis
    then have "?J = []" by (metis list.set_intros(1) neq_Nil_conv surj_pair)
    then have "order_by_desc ?key ?J = []"
      by (simp only: order_by_desc_Nil)
    then have "select_winner ?m s = None"
      by (simp add: select_winner_def)
    with rep show "reply (getCurrentWinner E now s) = Response 200 (WinnerBody None)"
      by simp
  qed
  have some: "(\<exists>w \<in> set (monthly_winners s). mw_month_year w = ?m \<and>
              (\<exists>c \<in> set (cats s). cat_id c = mw_cat_id w)) \<longrightarrow>
            (\<exists>w \<in> set (monthly_winners s). \<exists>c \<in> set (cats s).
               mw_month_year w = ?m \<and> cat_id c = mw_cat_id w \<and>
               (\<forall>w' \<in> set (monthly_winners s).
                  mw_month_year w' = ?m \<and> (\<exists>c' \<in> set (cats s). cat_id c' = mw_cat_id w') \<longrightarrow>
                  mw_upvote_count w' \<le> mw_upvote_count w) \<and>
               reply (getCurrentWinner E now s) =
                 Response 200 (WinnerBody (Some \<lparr>win_id = cat_id c, win_image_url = cat_image_url c,
                                                 win_upvote_count = mw_upvote_count w\<rparr>)))"
  proof
    assume "\<exists>w \<in> set (monthly_winners s). mw_month_year w = ?m \<and>
              (\<exists>c \<in> set (cats s). cat_id c = mw_cat_id w)"
    then obtain w0 c0 where w0: "w0 \<in> set (monthly_winners s)" "mw_month_year w0 = ?m"
      and c0: "c0 \<in> set (cats s)" "cat_id c0 = mw_cat_id w0" by blast
    then have "(w0, c0) \<in> set ?J" by (simp only: memJ)
    then have "?J \<noteq> []" by (metis empty_iff empty_set)
    then have "order_by_desc ?key ?J \<noteq> []"
      by (simp only: order_by_desc_Nil not_False_eq_True)
    then obtain w c rest where hd: "order_by_desc ?key ?J = (w, c) # rest"
      by (cases "order_by_desc ?key ?J") auto
    from order_by_desc_head [OF hd]
    have mem: "(w, c) \<in> set ?J" and top: "\<forall>x \<in> set ?J. ?key x \<le> ?key (w, c)" by blast+
    from mem have wc: "w \<in> set (monthly_winners s)" "c \<in> set (cats s)"
      "cat_id c = mw_cat_id w" "mw_month_year w = ?m" by (simp_all only: memJ)
    have best: "\<forall>w' \<in> set (monthly_winners s).
                  mw_month_year w' = ?m \<and> (\<exists>c' \<in> set (cats s). cat_id c' = mw_cat_id w') \<longrightarrow>
                  mw_upvote_count w' \<le> mw_upvote_count w"
    proof (intro ballI impI)
      fix w' assume w': "w' \<in> set (monthly_winners s)"
        and h: "mw_month_year w' = ?m \<and> (\<exists>c' \<in> set (cats s). cat_id c' = mw_cat_id w')"
      then obtain c' where "c' \<in> set (cats s)" "cat_id c' = mw_cat_id w'" by blast
      with w' h have "(w', c') \<in> set ?J" by (simp only: memJ)
      with top show "mw_upvote_count w' \<le> mw_upvote_count w" by auto
    qed
    have "select_winner ?m s = Some \<lparr>win_id = cat_id c, win_image_url = cat_image_url c,
                                      win_upvote_count = mw_upvote_count w\<rparr>"
      using hd by (simp add: select_winner_def)
    with rep have rep': "reply (getCurrentWinner E now s) =
                 Response 200 (WinnerBody (Some \<lparr>win_id = cat_id c, win_image_url = cat_image_url c,
                                                 win_upvote_count = mw_upvote_count w\<rparr>))"
      by simp
    show "\<exists>w \<in> set (monthly_winners s). \<exists>c \<in> set (cats s).
               mw_month_year w = ?m \<and> cat_id c = mw_cat_id w \<and>
               (\<forall>w' \<in> set (monthly_winners s).
                  mw_month_year w' = ?m \<and> (\<exists>c' \<in> set (cats s). cat_id c' = mw_cat_id w') \<longrightarrow>
                  mw_upvote_count w' \<le> mw_upvote_count w) \<and>
               reply (getCurrentWinner E now s) =
                 Response 200 (WinnerBody (Some \<lparr>win_id = cat_id c, win_image_url = cat_image_url c,
                                                 win_upvote_count = mw_upvote_count w\<rparr>))"
    proof (rule bexI [where x = w], rule bexI [where x = c])
      show "mw_month_year w = ?m \<and> cat_id c = mw_cat_id w \<and>
               (\<forall>w' \<in> set (monthly_winners s).
                  mw_month_year w' = ?m \<and> (\<exists>c' \<in> set (cats s). cat_id c' = mw_cat_id w') \<longrightarrow>
                  mw_upvote_count w' \<le> mw_upvote_count w) \<and>
               reply (getCurrentWinner E now s) =
                 Response 200 (WinnerBody (Some \<lparr>win_id = cat_id c, win_image_url = cat_image_url c,
                                                 win_upvote_count = mw_upvote_count w\<rparr>))"
        using wc(3,4) best rep' by (intro conjI)
    qed (fact wc)+
  qed
  from currentMonth_format none some show ?thesis by blast
qed

text \<open>
  The theorem at the sample store in November 2026, a month with two rows, and in
  December 2026, a month with none.
\<close>

theorem getCurrentWinner_null_or_maximum_witness:
  "\<not> fault sample_engine (SelectWinner (currentMonth sample_time)) \<and>
   currentMonth sample_time = ''2026-11'' \<and>
   reply (getCurrentWinner sample_engine sample_time sample_store) =
     Response 200 (WinnerBody (Some \<lparr>win_id = 2, win_image_url = ''http://x/2.jpg'',
                                     win_upvote_count = Some 7\<rparr>)) \<and>
   currentMonth (sample_time\<lparr>month := 12\<rparr>) = ''2026-12'' \<and>
   reply (getCurrentWinner sample_engine (sample_time\<lparr>month := 12\<rparr>) sample_store) =
     Response 200 (WinnerBody None)"
proof -
  have nf: "\<And>q. \<not> fault sample_engine q"
    by (simp add: sample_engine_def)
  have m11: "currentMonth sample_time = ''2026-11''"
    by (simp add: currentMonth_format sample_time_def) (simp add: pad_def digit_def upt_rec)
  have m12: "currentMonth (sample_time\<lparr>month := 12\<rparr>) = ''2026-12''"
    by (simp add: currentMonth_format sample_time_def) (simp add: pad_def digit_def upt_rec)
  note now = getCurrentWinner_null_or_maximum [OF nf, of sample_time sample_store]
  note later = getCurrentWinner_null_or_maximum [OF nf, of "sample_time\<lparr>month := 12\<rparr>" sample_store]
  have ex: "\<exists>w \<in> set (monthly_winners sample_store). mw_month_year w = currentMonth sample_time \<and>
              (\<exists>c \<in> set (cats sample_store). cat_id c = mw_cat_id w)"
    by (simp add: m11 sample_store_def)
  from now ex obtain w c where w: "w \<in> set (monthly_winners sample_store)"
    and c: "c \<in> set (cats sample_store)"
    and mw: "mw_month_year w = ''2026-11''"
    and cw: "cat_id c = mw_cat_id w"
    and top: "\<forall>w' \<in> set (monthly_winners sample_store).
                mw_month_year w' = ''2026-11'' \<and>
                (\<exists>c' \<in> set (cats sample_store). cat_id c' = mw_cat_id w') \<longrightarrow>
                mw_upvote_count w' \<le> mw_upvote_count w"
    and rep: "reply (getCurrentWinner sample_engine sample_time sample_store) =
                 Response 200 (WinnerBody (Some \<lparr>win_id = cat_id c, win_image_url = cat_image_url c,
                                                 win_upvote_count = mw_upvote_count w\<rparr>))"
    unfolding m11 by blast
  from w mw top have weq: "w = \<lparr>mw_id = 2, mw_cat_id = 2, mw_month_year = ''2026-11'', mw_upvote_count = Some 7\<rparr>"
    by (auto simp: sample_store_def)
  with c cw have ceq: "c = \<lparr>cat_id = 2, cat_image_url = ''http://x/2.jpg'', cat_external_id = Some ''c2''\<rparr>"
    by (auto simp: sample_store_def)
  have r1: "reply (getCurrentWinner sample_engine sample_time sample_store) =
     Response 200 (WinnerBody (Some \<lparr>win_id = 2, win_image_url = ''http://x/2.jpg'',
                                     win_upvote_count = Some 7\<rparr>))"
    using rep by (simp add: weq ceq)
  have none: "\<forall>w \<in> set (monthly_winners sample_store).
                mw_month_year w = currentMonth (sample_time\<lparr>month := 12\<rparr>) \<longrightarrow>
                (\<forall>c \<in> set (cats sample_store). cat_id c \<noteq> mw_cat_id w)"
    by (simp add: m12 sample_store_def)
  with later have r2: "reply (getCurrentWinner sample_engine (sample_time\<lparr>month := 12\<rparr>) sample_store) =
     Response 200 (WinnerBody None)"
    by blast
  from nf m11 m12 r1 r2 show ?thesis by simp
qed

section \<open>Validation of a vote\<close>

text \<open>
  C3. For every request body whose \<^verbatim>\<open>vote_type\<close> is not exactly the string \<open>upvote\<close> or
  \<open>downvote\<close>, and for every body whose \<^verbatim>\<open>cat_id\<close> is missing, \<^verbatim>\<open>POST /api/votes\<close>
  answers 400 with the validation message, issues no statement to the Store and leaves the
  Store, hence the votes table, as it was.
\<close>

theorem submitVote_rejects_invalid:
  assumes "body_vote_type b \<notin> {JStr ''upvote'', JStr ''downvote''} \<or> body_cat_id b = JUndefined"
  shows "reply (submitVote E s b) = Response 400 (ErrorBody ''Invalid cat_id or vote_type'') \<and>
         store_after (submitVote E s b) = s \<and>
         issued (submitVote E s b) = []"
  using assms by (auto simp: submitVote_def array_includes_def)

text \<open>The theorem at a body with the vote type \<open>sideways\<close>.\<close>

theorem submitVote_rejects_invalid_witness:
  "body_vote_type \<lparr>body_cat_id = JNum 1, body_vote_type = JStr ''sideways''\<rparr>
      \<notin> {JStr ''upvote'', JStr ''downvote''} \<and>
   reply (submitVote sample_engine sample_store
            \<lparr>body_cat_id = JNum 1, body_vote_type = JStr ''sideways''\<rparr>)
     = Response 400 (ErrorBody ''Invalid cat_id or vote_type'') \<and>
   votes (store_after (submitVote sample_engine sample_store
            \<lparr>body_cat_id = JNum 1, body_vote_type = JStr ''sideways''\<rparr>)) = votes sample_store \<and>
   issued (submitVote sample_engine sample_store
            \<lparr>body_cat_id = JNum 1, body_vote_type = JStr ''sideways''\<rparr>) = []"
  using submitVote_rejects_invalid
          [of "\<lparr>body_cat_id = JNum 1, body_vote_type = JStr ''sideways''\<rparr>" sample_engine sample_store]
  by simp

section \<open>Foreign keys and votes\<close>

text \<open>
  Every handler that writes keeps the votes referring to existing cats, as long as foreign
  keys are on: a vote is only stored for a cat that exists, seeding only adds cats, and the
  delete of cats fails while a vote still refers to one.
\<close>

lemma open_callback_enables_foreign_keys:
  "\<not> fault E PragmaForeignKeysOn \<Longrightarrow> foreign_keys (open_callback E s)"
  by (simp add: open_callback_def run_logged_def db_run_def)

lemma insert_vote_result:
  assumes "insert_vote E p_cat p_type s = Inr s'"
  shows "\<exists>n t. s' = s\<lparr>votes := votes s @ [\<lparr>vote_id = n, vote_cat_id = integer_column E (bind_param p_cat),
                                                vote_type = t\<rparr>], votes_seq := n\<rparr> \<and>
               (foreign_keys s \<longrightarrow>
                  (\<exists>c \<in> set (cats s). integer_column E (bind_param p_cat) = SqlInt (cat_id c)))"
  using assms
  by (auto simp: insert_vote_def Let_def split: option.splits if_splits)

lemma insert_vote_keeps_references:
  assumes "insert_vote E p_cat p_type s = Inr s'" and "foreign_keys s" and "votes_reference_cats s"
  shows "votes_reference_cats s' \<and> foreign_keys s'"
proof -
  from insert_vote_result [OF assms(1)] assms(2)
  obtain n t c where s': "s' = s\<lparr>votes := votes s @ [\<lparr>vote_id = n,
        vote_cat_id = integer_column E (bind_param p_cat), vote_type = t\<rparr>], votes_seq := n\<rparr>"
    and c: "c \<in> set (cats s)" "integer_column E (bind_param p_cat) = SqlInt (cat_id c)"
    by blast
  from assms(2,3) c show ?thesis
    unfolding s' by (auto simp: votes_reference_cats_def)
qed

lemma submitVote_keeps_references:
  assumes "foreign_keys s" and "votes_reference_cats s"
  shows "votes_reference_cats (store_after (submitVote E s b)) \<and>
         foreign_keys (store_after (submitVote E s b))"
proof (cases "db_run E (InsertVote (body_cat_id b) (body_vote_type b)) s")
  case (Inl err)
  with assms show ?thesis by (simp add: submitVote_def)
next
  case (Inr s')
  then have "insert_vote E (body_cat_id b) (body_vote_type b) s = Inr s'"
    by (simp add: db_run_def split: if_splits)
  from insert_vote_keeps_references [OF this assms] Inr assms show ?thesis
    by (simp add: submitVote_def)
qed

lemma insert_or_ignore_cat_grows:
  "votes (insert_or_ignore_cat E u i s) = votes s \<and>
   foreign_keys (insert_or_ignore_cat E u i s) = foreign_keys s \<and>
   set (cats s) \<subseteq> set (cats (insert_or_ignore_cat E u i s))"
  by (auto simp: insert_or_ignore_cat_def Let_def split: option.splits)

lemma insert_callback_keeps_references:
  assumes "foreign_keys (fst st)" and "votes_reference_cats (fst st)"
  shows "votes_reference_cats (fst (insert_callback E (InsertOrIgnoreCat u i) st)) \<and>
         foreign_keys (fst (insert_callback E (InsertOrIgnoreCat u i) st))"
proof (cases "fault E (InsertOrIgnoreCat u i)")
  case True
  with assms show ?thesis by (simp add: insert_callback_def db_run_def)
next
  case False
  then have eq: "fst (insert_callback E (InsertOrIgnoreCat u i) st) = insert_or_ignore_cat E u i (fst st)"
    by (simp add: insert_callback_def db_run_def)
  from insert_or_ignore_cat_grows [of E u i "fst st"] assms show ?thesis
    unfolding eq votes_reference_cats_def by auto
qed

lemma run_inserts_keeps_references:
  assumes "foreign_keys (fst st)" and "votes_reference_cats (fst st)"
  shows "votes_reference_cats (fst (run_inserts E (map (\<lambda>c. InsertOrIgnoreCat (item_url c) (item_id c)) items) st)) \<and>
         foreign_keys (fst (run_inserts E (map (\<lambda>c. InsertOrIgnoreCat (item_url c) (item_id c)) items) st))"
  using assms
proof (induction items arbitrary: st)
  case Nil
  then show ?case by (simp add: run_inserts_def)
next
  case (Cons x xs)
  from insert_callback_keeps_references [OF Cons.prems, of E "item_url x" "item_id x"]
  have "votes_reference_cats (fst (insert_callback E (InsertOrIgnoreCat (item_url x) (item_id x)) st))"
    and "foreign_keys (fst (insert_callback E (InsertOrIgnoreCat (item_url x) (item_id x)) st))"
    by simp_all
  from Cons.IH [OF this(2) this(1)] show ?case
    by (simp add: run_inserts_def)
qed

lemma forEach_insert_queue:
  "fst (forEach_insert items) =
     map (\<lambda>c. InsertOrIgnoreCat (item_url c) (item_id c)) (queued_items items)"
  by (induction items rule: queued_items.induct) simp_all

lemma forEach_insert_thrown: "snd (forEach_insert items) = (None \<in> set items)"
  by (induction items rule: queued_items.induct) auto

lemma seedCats_keeps_references:
  assumes "foreign_keys s" and "votes_reference_cats s"
  shows "votes_reference_cats (store_after (seedCats E s body)) \<and>
         foreign_keys (store_after (seedCats E s body))"
proof (cases body)
  case None
  with assms show ?thesis by (simp add: seedCats_def)
next
  case (Some items)
  from run_inserts_keeps_references [of "(s, 0)" E "queued_items items"] assms Some show ?thesis
    by (simp add: seedCats_def Let_def forEach_insert_queue)
qed

lemma run_logged_delete_keeps_references:
  assumes "foreign_keys s" and "votes_reference_cats s"
    and "q \<in> {DeleteVotes, DeleteMonthlyWinners, DeleteCats}"
  shows "votes_reference_cats (run_logged E q s) \<and> foreign_keys (run_logged E q s)"
proof (cases "fault E q")
  case True
  with assms show ?thesis by (simp add: run_logged_def db_run_def)
next
  case False
  from assms(3) consider "q = DeleteVotes" | "q = DeleteMonthlyWinners" | "q = DeleteCats" by blast
  then show ?thesis
  proof cases
    case 1
    with False assms show ?thesis
      by (simp add: run_logged_def db_run_def votes_reference_cats_def)
  next
    case 2
    with False assms show ?thesis
      by (simp add: run_logged_def db_run_def votes_reference_cats_def)
  next
    case 3
    show ?thesis
    proof (cases "delete_cats s")
      case (Inl err)
      with 3 False assms show ?thesis by (simp add: run_logged_def db_run_def)
    next
      case (Inr s')
      with assms(1) have s': "s' = s\<lparr>cats := []\<rparr>"
        and none: "\<not> (\<exists>c \<in> set (cats s). \<exists>v \<in> set (votes s). vote_cat_id v = SqlInt (cat_id c))"
        by (auto simp: delete_cats_def split: if_splits)
      from none assms(2) have "votes s = []"
        by (cases "votes s") (auto simp: votes_reference_cats_def)
      with 3 False Inr assms(1) show ?thesis
        by (simp add: run_logged_def db_run_def s' votes_reference_cats_def)
    qed
  qed
qed

lemma clearAll_keeps_references:
  assumes "foreign_keys s" and "votes_reference_cats s"
  shows "votes_reference_cats (store_after (clearAll E s)) \<and> foreign_keys (store_after (clearAll E s))"
proof -
  have a: "votes_reference_cats (run_logged E DeleteVotes s) \<and> foreign_keys (run_logged E DeleteVotes s)"
    using run_logged_delete_keeps_references [OF assms, of DeleteVotes E] by simp
  have b: "votes_reference_cats (run_logged E DeleteMonthlyWinners (run_logged E DeleteVotes s)) \<and>
           foreign_keys (run_logged E DeleteMonthlyWinners (run_logged E DeleteVotes s))"
    using run_logged_delete_keeps_references [of "run_logged E DeleteVotes s" DeleteMonthlyWinners E] a
    by simp
  have "votes_reference_cats (run_logged E DeleteCats (run_logged E DeleteMonthlyWinners (run_logged E DeleteVotes s))) \<and>
        foreign_keys (run_logged E DeleteCats (run_logged E DeleteMonthlyWinners (run_logged E DeleteVotes s)))"
    using run_logged_delete_keeps_references
            [of "run_logged E DeleteMonthlyWinners (run_logged E DeleteVotes s)" DeleteCats E] b
    by simp
  then show ?thesis by (simp add: clearAll_def)
qed

text \<open>
  C7, as stated, at \<^verbatim>\<open>cat_id\<close> 0 with a valid vote type: 0 is the id of no cat, but the
  handler's guard \<^verbatim>\<open>!cat_id\<close> answers 400 and no insert is issued, so there is neither a
  foreign-key violation nor a server error.
\<close>

theorem submitVote_zero_cat_id_counterexample:
  "foreign_keys sample_store \<and>
   integer_column sample_engine (bind_param (JNum 0)) = SqlInt 0 \<and>
   0 \<notin> set (map cat_id (cats sample_store)) \<and>
   reply (submitVote sample_engine sample_store \<lparr>body_cat_id = JNum 0, body_vote_type = JStr ''upvote''\<rparr>)
     = Response 400 (ErrorBody ''Invalid cat_id or vote_type'') \<and>
   issued (submitVote sample_engine sample_store \<lparr>body_cat_id = JNum 0, body_vote_type = JStr ''upvote''\<rparr>)
     = []"
  by (simp add: submitVote_def sample_store_def)

text \<open>
  C7, amended. With foreign keys on, for every truthy \<^verbatim>\<open>cat_id\<close> whose stored value is
  the id of no cat, and any valid vote type, \<^verbatim>\<open>POST /api/votes\<close> issues its insert, the
  insert fails (with a constraint violation, unless the engine fails it earlier), the
  answer is 500 and the Store is as it was; and if every vote refers to an existing cat
  before a request, every vote does so after it, with foreign keys still on: the vote, seed
  and clear handlers keep both, the other three leave the Store as it is.
\<close>

theorem submitVote_unknown_cat_rejected:
  assumes fk: "foreign_keys s"
    and cid: "truthy (body_cat_id b)"
    and vt: "body_vote_type b \<in> {JStr ''upvote'', JStr ''downvote''}"
    and absent: "\<forall>c \<in> set (cats s). integer_column E (bind_param (body_cat_id b)) \<noteq> SqlInt (cat_id c)"
  shows "issued (submitVote E s b) = [InsertVote (body_cat_id b) (body_vote_type b)] \<and>
         (\<exists>err. db_run E (InsertVote (body_cat_id b) (body_vote_type b)) s = Inl err) \<and>
         (\<not> fault E (InsertVote (body_cat_id b) (body_vote_type b)) \<longrightarrow>
            db_run E (InsertVote (body_cat_id b) (body_vote_type b)) s = Inl SqlConstraint) \<and>
         reply (submitVote E s b) = Response 500 (ErrorBody ''Failed to add vote'') \<and>
         store_after (submitVote E s b) = s \<and>
         (votes_reference_cats s \<longrightarrow>
            (\<forall>b'. votes_reference_cats (store_after (submitVote E s b')) \<and>
                  foreign_keys (store_after (submitVote E s b'))) \<and>
            (\<forall>body. votes_reference_cats (store_after (seedCats E s body)) \<and>
                    foreign_keys (store_after (seedCats E s body))) \<and>
            votes_reference_cats (store_after (clearAll E s)) \<and>
            foreign_keys (store_after (clearAll E s)) \<and>
            store_after (listCats E s) = s \<and>
            store_after (getCurrentWinner E now s) = s \<and>
            store_after (health s) = s)"
proof -
  let ?q = "InsertVote (body_cat_id b) (body_vote_type b)"
  have valid: "\<not> (\<not> truthy (body_cat_id b) \<or> \<not> truthy (body_vote_type b) \<or>
         \<not> array_includes [JStr ''upvote'', JStr ''downvote''] (body_vote_type b))"
    using cid vt by (auto simp: array_includes_def)
  have ins: "insert_vote E (body_cat_id b) (body_vote_type b) s = Inl SqlConstraint"
    using fk absent by (auto simp: insert_vote_def Let_def split: option.splits)
  have run: "db_run E ?q s = Inl (if fault E ?q then SqlFailure else SqlConstraint)"
    by (simp add: db_run_def ins)
  have out: "submitVote E s b = \<lparr>reply = Response 500 (ErrorBody ''Failed to add vote''),
                                 store_after = s, issued = [?q]\<rparr>"
    using valid by (simp add: submitVote_def run Let_def)
  have rd: "store_after (listCats E s) = s \<and> store_after (getCurrentWinner E now s) = s \<and>
            store_after (health s) = s"
    by (simp add: listCats_def getCurrentWinner_def health_def split: sum.split)
  have inv: "votes_reference_cats s \<longrightarrow>
            (\<forall>b'. votes_reference_cats (store_after (submitVote E s b')) \<and>
                  foreign_keys (store_after (submitVote E s b'))) \<and>
            (\<forall>body. votes_reference_cats (store_after (seedCats E s body)) \<and>
                    foreign_keys (store_after (seedCats E s body))) \<and>
            votes_reference_cats (store_after (clearAll E s)) \<and>
            foreign_keys (store_after (clearAll E s))"
    using submitVote_keeps_references [OF fk] seedCats_keeps_references [OF fk]
      clearAll_keeps_references [OF fk]
    by blast
  from run out inv rd show ?thesis by simp
qed

text \<open>The theorem at the sample store and \<^verbatim>\<open>cat_id\<close> 5, the id of no cat.\<close>

theorem submitVote_unknown_cat_rejected_witness:
  "foreign_keys sample_store \<and> truthy (JNum 5) \<and>
   5 \<notin> set (map cat_id (cats sample_store)) \<and>
   votes_reference_cats sample_store \<and>
   db_run sample_engine (InsertVote (JNum 5) (JStr ''upvote'')) sample_store = Inl SqlConstraint \<and>
   reply (submitVote sample_engine sample_store \<lparr>body_cat_id = JNum 5, body_vote_type = JStr ''upvote''\<rparr>)
     = Response 500 (ErrorBody ''Failed to add vote'') \<and>
   votes (store_after (submitVote sample_engine sample_store
            \<lparr>body_cat_id = JNum 5, body_vote_type = JStr ''upvote''\<rparr>)) = votes sample_store \<and>
   votes_reference_cats (store_after (submitVote sample_engine sample_store
            \<lparr>body_cat_id = JNum 2, body_vote_type = JStr ''downvote''\<rparr>)) \<and>
   votes_reference_cats (store_after (clearAll sample_engine sample_store))"
proof -
  let ?b = "\<lparr>body_cat_id = JNum 5, body_vote_type = JStr ''upvote''\<rparr>"
  have fk: "foreign_keys sample_store" by (simp add: sample_store_def)
  have cid: "truthy (body_cat_id ?b)" by simp
  have vt: "body_vote_type ?b \<in> {JStr ''upvote'', JStr ''downvote''}" by simp
  have absent: "\<forall>c \<in> set (cats sample_store).
                  integer_column sample_engine (bind_param (body_cat_id ?b)) \<noteq> SqlInt (cat_id c)"
    by (simp add: sample_store_def)
  have nf: "\<not> fault sample_engine (InsertVote (body_cat_id ?b) (body_vote_type ?b))"
    by (simp add: sample_engine_def)
  have inv: "votes_reference_cats sample_store"
    by (simp add: votes_reference_cats_def sample_store_def)
  have nin: "5 \<notin> set (map cat_id (cats sample_store))"
    by (simp add: sample_store_def)
  from submitVote_unknown_cat_rejected [OF fk cid vt absent] nf inv fk nin
  show ?thesis by simp
qed

section \<open>Seeding cats\<close>

text \<open>
  C2. Seeding the empty Store with the one cat \<open>c1\<close> creates one row, and the response
  reports \<^verbatim>\<open>inserted\<close> 0: \<^verbatim>\<open>res.json\<close> reads the counter before any insert callback has
  run. Seeding the sample store, which holds \<open>c1\<close>, with the same cat creates no row, and
  the callback still raises the counter to 1: a skipped duplicate is no error.
\<close>

theorem seedCats_reply_counts_nothing:
  "reply (seedCats sample_engine empty_store
            (Some [Some \<lparr>item_id = JStr ''c1'', item_url = JStr ''http://x/1.jpg''\<rparr>]))
     = Response 200 (SeedCount 0) \<and>
   cats empty_store = [] \<and>
   cats (store_after (seedCats sample_engine empty_store
            (Some [Some \<lparr>item_id = JStr ''c1'', item_url = JStr ''http://x/1.jpg''\<rparr>])))
     = [\<lparr>cat_id = 1, cat_image_url = ''http://x/1.jpg'', cat_external_id = Some ''c1''\<rparr>] \<and>
   cats (store_after (seedCats sample_engine sample_store
            (Some [Some \<lparr>item_id = JStr ''c1'', item_url = JStr ''http://x/1.jpg''\<rparr>])))
     = cats sample_store \<and>
   seed_counter (seedCats sample_engine sample_store
            (Some [Some \<lparr>item_id = JStr ''c1'', item_url = JStr ''http://x/1.jpg''\<rparr>])) = 1"
  by (simp add: seedCats_def run_inserts_def insert_callback_def db_run_def
        insert_or_ignore_cat_def sample_engine_def empty_store_def sample_store_def next_rowid_def
        Let_def)

text \<open>
  Insert-or-ignore appends a row exactly when the url is not NULL and the external id is
  NULL or new; so after a run of inserts the external ids stored are the old ones and
  those of the elements that carry a url, each once.
\<close>

lemma stored_external_ids_member:
  "Some e \<in> set (map cat_external_id cs) \<longleftrightarrow> e \<in> set (stored_external_ids cs)"
  by (induction cs) (auto simp: stored_external_ids_def split: option.splits)

lemma stored_external_ids_append:
  "stored_external_ids (cs @ ds) = stored_external_ids cs @ stored_external_ids ds"
  by (simp add: stored_external_ids_def)

lemma rows_with_external_id:
  "length (filter (\<lambda>c. cat_external_id c = Some e) cs) = count_list (stored_external_ids cs) e"
  by (induction cs) (auto simp: stored_external_ids_def split: option.splits)

lemma count_list_distinct:
  "distinct xs \<Longrightarrow> count_list xs e = (if e \<in> set xs then 1 else 0)"
  by (induction xs) auto

lemma insert_or_ignore_cat_ids:
  "stored_external_ids (cats (insert_or_ignore_cat E u i s)) =
     stored_external_ids (cats s) @
     (case (text_column E (bind_param u), text_column E (bind_param i)) of
        (Some url, Some e) \<Rightarrow> if e \<in> set (stored_external_ids (cats s)) then [] else [e]
      | _ \<Rightarrow> [])"
  by (auto simp: insert_or_ignore_cat_def Let_def stored_external_ids_append
        stored_external_ids_member [symmetric] split: option.splits)
     (simp_all add: stored_external_ids_def)

lemma insert_or_ignore_cat_skips:
  assumes "text_column E (bind_param u) = None \<or>
           (\<exists>e \<in> set (stored_external_ids (cats s)). text_column E (bind_param i) = Some e)"
  shows "cats (insert_or_ignore_cat E u i s) = cats s"
  using assms
  by (auto simp: insert_or_ignore_cat_def Let_def stored_external_ids_member [symmetric]
        split: option.splits)

lemma insert_callback_no_fault:
  "\<not> fault E (InsertOrIgnoreCat u i) \<Longrightarrow>
   fst (insert_callback E (InsertOrIgnoreCat u i) st) = insert_or_ignore_cat E u i (fst st)"
  by (simp add: insert_callback_def db_run_def)

lemma run_inserts_ids:
  assumes nf: "\<forall>u i. \<not> fault E (InsertOrIgnoreCat u i)"
  shows "set (stored_external_ids (cats (fst (run_inserts E (map (\<lambda>c. InsertOrIgnoreCat (item_url c) (item_id c)) items) st)))) =
           set (stored_external_ids (cats (fst st))) \<union>
           {e. \<exists>x \<in> set items. seed_external_id E x = Some e \<and> seed_image_url E x \<noteq> None} \<and>
         (distinct (stored_external_ids (cats (fst st))) \<longrightarrow>
          distinct (stored_external_ids (cats (fst (run_inserts E (map (\<lambda>c. InsertOrIgnoreCat (item_url c) (item_id c)) items) st)))))"
proof (induction items arbitrary: st)
  case Nil
  show ?case by (simp add: run_inserts_def)
next
  case (Cons x xs)
  let ?st = "insert_callback E (InsertOrIgnoreCat (item_url x) (item_id x)) st"
  have step: "fst ?st = insert_or_ignore_cat E (item_url x) (item_id x) (fst st)"
    using nf by (simp add: insert_callback_no_fault)
  have ids: "set (stored_external_ids (cats (fst ?st))) =
               set (stored_external_ids (cats (fst st))) \<union>
               {e. seed_external_id E x = Some e \<and> seed_image_url E x \<noteq> None}"
    unfolding step insert_or_ignore_cat_ids seed_external_id_def seed_image_url_def
    by (cases "text_column E (bind_param (item_url x))";
        cases "text_column E (bind_param (item_id x))") auto
  have dist: "distinct (stored_external_ids (cats (fst st))) \<longrightarrow>
              distinct (stored_external_ids (cats (fst ?st)))"
    unfolding step insert_or_ignore_cat_ids
    by (cases "text_column E (bind_param (item_url x))";
        cases "text_column E (bind_param (item_id x))") auto
  from Cons.IH [of ?st] ids dist show ?case
    by (auto simp: run_inserts_def)
qed

lemma run_inserts_skips:
  assumes nf: "\<forall>u i. \<not> fault E (InsertOrIgnoreCat u i)"
    and known: "\<forall>x \<in> set items. seed_image_url E x = None \<or>
                  (\<exists>e \<in> set (stored_external_ids (cats (fst st))). seed_external_id E x = Some e)"
  shows "cats (fst (run_inserts E (map (\<lambda>c. InsertOrIgnoreCat (item_url c) (item_id c)) items) st)) =
         cats (fst st)"
  using known
proof (induction items arbitrary: st)
  case Nil
  show ?case by (simp add: run_inserts_def)
next
  case (Cons x xs)
  let ?st = "insert_callback E (InsertOrIgnoreCat (item_url x) (item_id x)) st"
  have step: "fst ?st = insert_or_ignore_cat E (item_url x) (item_id x) (fst st)"
    using nf by (simp add: insert_callback_no_fault)
  from Cons.prems have "seed_image_url E x = None \<or>
                  (\<exists>e \<in> set (stored_external_ids (cats (fst st))). seed_external_id E x = Some e)"
    by simp
  then have same: "cats (fst ?st) = cats (fst st)"
    unfolding step seed_image_url_def seed_external_id_def
    by (rule insert_or_ignore_cat_skips)
  from Cons.prems same have "\<forall>x \<in> set xs. seed_image_url E x = None \<or>
                  (\<exists>e \<in> set (stored_external_ids (cats (fst ?st))). seed_external_id E x = Some e)"
    by simp
  from Cons.IH [OF this] same show ?case
    by (simp add: run_inserts_def)
qed

lemma seedCats_store:
  "store_after (seedCats E s (Some items)) =
     fst (run_inserts E (map (\<lambda>c. InsertOrIgnoreCat (item_url c) (item_id c)) (queued_items items))
            (s, 0))"
  by (cases items) (simp_all add: seedCats_def Let_def run_inserts_def forEach_insert_queue)

text \<open>
  A \<^verbatim>\<open>null\<close> element between two cats: the insert of the first cat runs, the second is
  never issued, and the answer is the 500 of the uncaught TypeError.
\<close>

lemma seedCats_null_element:
  "reply (seedCats sample_engine empty_store
            (Some [Some \<lparr>item_id = JStr ''c1'', item_url = JStr ''http://x/1.jpg''\<rparr>, None,
                   Some \<lparr>item_id = JStr ''c2'', item_url = JStr ''http://x/2.jpg''\<rparr>]))
     = Response 500 UncaughtException \<and>
   issued (seedCats sample_engine empty_store
            (Some [Some \<lparr>item_id = JStr ''c1'', item_url = JStr ''http://x/1.jpg''\<rparr>, None,
                   Some \<lparr>item_id = JStr ''c2'', item_url = JStr ''http://x/2.jpg''\<rparr>]))
     = [InsertOrIgnoreCat (JStr ''http://x/1.jpg'') (JStr ''c1'')] \<and>
   cats (store_after (seedCats sample_engine empty_store
            (Some [Some \<lparr>item_id = JStr ''c1'', item_url = JStr ''http://x/1.jpg''\<rparr>, None,
                   Some \<lparr>item_id = JStr ''c2'', item_url = JStr ''http://x/2.jpg''\<rparr>])))
     = [\<lparr>cat_id = 1, cat_image_url = ''http://x/1.jpg'', cat_external_id = Some ''c1''\<rparr>]"
  by (simp add: seedCats_def run_inserts_def insert_callback_def db_run_def
        insert_or_ignore_cat_def sample_engine_def empty_store_def next_rowid_def Let_def)

text \<open>
  C5, as stated, at a list of an element with id \<open>c1\<close> and no url and an element with a url
  and no id, seeded twice into the empty Store: no row has the external id \<open>c1\<close>, and the
  second call adds a row to the one the first call created.
\<close>

theorem seedCats_missing_url_counterexample:
  "seed_external_id sample_engine \<lparr>item_id = JStr ''c1'', item_url = JUndefined\<rparr> = Some ''c1'' \<and>
   filter (\<lambda>c. cat_external_id c = Some ''c1'')
     (cats (store_after (seedCats sample_engine
        (store_after (seedCats sample_engine empty_store
           (Some [Some \<lparr>item_id = JStr ''c1'', item_url = JUndefined\<rparr>,
                  Some \<lparr>item_id = JNull, item_url = JStr ''http://x/2.jpg''\<rparr>])))
        (Some [Some \<lparr>item_id = JStr ''c1'', item_url = JUndefined\<rparr>,
               Some \<lparr>item_id = JNull, item_url = JStr ''http://x/2.jpg''\<rparr>])))) = [] \<and>
   length (cats (store_after (seedCats sample_engine empty_store
           (Some [Some \<lparr>item_id = JStr ''c1'', item_url = JUndefined\<rparr>,
                  Some \<lparr>item_id = JNull, item_url = JStr ''http://x/2.jpg''\<rparr>])))) = 1 \<and>
   length (cats (store_after (seedCats sample_engine
        (store_after (seedCats sample_engine empty_store
           (Some [Some \<lparr>item_id = JStr ''c1'', item_url = JUndefined\<rparr>,
                  Some \<lparr>item_id = JNull, item_url = JStr ''http://x/2.jpg''\<rparr>])))
        (Some [Some \<lparr>item_id = JStr ''c1'', item_url = JUndefined\<rparr>,
               Some \<lparr>item_id = JNull, item_url = JStr ''http://x/2.jpg''\<rparr>])))) = 2"
  by (simp add: seedCats_def run_inserts_def insert_callback_def db_run_def
        insert_or_ignore_cat_def sample_engine_def empty_store_def next_rowid_def
        seed_external_id_def Let_def)

text \<open>
  C5, amended. For every Store with unique external ids and every two seed requests
  whose inserts do not fail, after both calls the number of rows of \<^verbatim>\<open>cats\<close> with a given
  non-NULL external id is exactly one if the id was already stored or is carried, together
  with a non-NULL url, by an element whose insert was issued (an element before the first
  \<^verbatim>\<open>null\<close> element of its list), and zero otherwise; and seeding again a list leaves the
  \<^verbatim>\<open>cats\<close> table as it is when every element whose insert is issued has a non-NULL
  external id.
\<close>

theorem seedCats_one_row_per_external_id:
  assumes nf: "\<forall>u i. \<not> fault E (InsertOrIgnoreCat u i)"
    and uniq: "distinct (stored_external_ids (cats s))"
  shows "(\<forall>e. length (filter (\<lambda>c. cat_external_id c = Some e)
                   (cats (store_after (seedCats E (store_after (seedCats E s (Some xs))) (Some ys))))) =
              (if e \<in> set (stored_external_ids (cats s)) \<or>
                  (\<exists>x \<in> set (queued_items xs @ queued_items ys).
                      seed_external_id E x = Some e \<and> seed_image_url E x \<noteq> None)
               then 1 else 0)) \<and>
         ((\<forall>x \<in> set (queued_items xs). seed_external_id E x \<noteq> None) \<longrightarrow>
            cats (store_after (seedCats E (store_after (seedCats E s (Some xs))) (Some xs))) =
            cats (store_after (seedCats E s (Some xs))))"
proof -
  let ?s1 = "store_after (seedCats E s (Some xs))"
  let ?s2 = "store_after (seedCats E ?s1 (Some ys))"
  from run_inserts_ids [OF nf, of "queued_items xs" "(s, 0)"] uniq
  have ids1: "set (stored_external_ids (cats ?s1)) = set (stored_external_ids (cats s)) \<union>
           {e. \<exists>x \<in> set (queued_items xs). seed_external_id E x = Some e \<and> seed_image_url E x \<noteq> None}"
    and d1: "distinct (stored_external_ids (cats ?s1))"
    by (simp_all add: seedCats_store)
  from run_inserts_ids [OF nf, of "queued_items ys" "(?s1, 0)"] d1
  have ids2: "set (stored_external_ids (cats ?s2)) = set (stored_external_ids (cats ?s1)) \<union>
           {e. \<exists>x \<in> set (queued_items ys). seed_external_id E x = Some e \<and> seed_image_url E x \<noteq> None}"
    and d2: "distinct (stored_external_ids (cats ?s2))"
    by (simp_all add: seedCats_store [of E ?s1 ys])
  have mem: "\<And>e. e \<in> set (stored_external_ids (cats ?s2)) \<longleftrightarrow>
               e \<in> set (stored_external_ids (cats s)) \<or>
               (\<exists>x \<in> set (queued_items xs @ queued_items ys).
                   seed_external_id E x = Some e \<and> seed_image_url E x \<noteq> None)"
    unfolding ids2 ids1 by auto
  have one: "\<forall>e. length (filter (\<lambda>c. cat_external_id c = Some e) (cats ?s2)) =
              (if e \<in> set (stored_external_ids (cats s)) \<or>
                  (\<exists>x \<in> set (queued_items xs @ queued_items ys).
                      seed_external_id E x = Some e \<and> seed_image_url E x \<noteq> None)
               then 1 else 0)"
    by (simp only: rows_with_external_id count_list_distinct [OF d2] mem) simp
  have idem: "(\<forall>x \<in> set (queued_items xs). seed_external_id E x \<noteq> None) \<longrightarrow>
            cats (store_after (seedCats E ?s1 (Some xs))) = cats ?s1"
  proof
    assume all: "\<forall>x \<in> set (queued_items xs). seed_external_id E x \<noteq> None"
    have "\<forall>x \<in> set (queued_items xs). seed_image_url E x = None \<or>
            (\<exists>e \<in> set (stored_external_ids (cats (fst (?s1, 0::nat)))). seed_external_id E x = Some e)"
    proof
      fix x assume x: "x \<in> set (queued_items xs)"
      with all obtain e where e: "seed_external_id E x = Some e" by auto
      show "seed_image_url E x = None \<or>
            (\<exists>e \<in> set (stored_external_ids (cats (fst (?s1, 0::nat)))). seed_external_id E x = Some e)"
      proof (cases "seed_image_url E x")
        case None
        then show ?thesis by simp
      next
        case (Some url)
        with x e have "e \<in> set (stored_external_ids (cats ?s1))"
          unfolding ids1 by auto
        with e show ?thesis by simp
      qed
    qed
    from run_inserts_skips [OF nf this] show "cats (store_after (seedCats E ?s1 (Some xs))) = cats ?s1"
      by (simp add: seedCats_store [of E ?s1 xs])
  qed
  from one idem show ?thesis by (rule conjI)
qed

text \<open>
  The theorem at two lists that share \<open>c2\<close>, seeded into the empty Store; the second list
  ends with a \<^verbatim>\<open>null\<close> element and an element \<open>c4\<close> after it, which gets no row.
\<close>

theorem seedCats_one_row_per_external_id_witness:
  "distinct (stored_external_ids (cats empty_store)) \<and>
   length (filter (\<lambda>c. cat_external_id c = Some ''c2'')
     (cats (store_after (seedCats sample_engine
        (store_after (seedCats sample_engine empty_store
           (Some [Some \<lparr>item_id = JStr ''c1'', item_url = JStr ''http://x/1.jpg''\<rparr>,
                  Some \<lparr>item_id = JStr ''c2'', item_url = JStr ''http://x/2.jpg''\<rparr>])))
        (Some [Some \<lparr>item_id = JStr ''c2'', item_url = JStr ''http://x/2.jpg''\<rparr>,
               Some \<lparr>item_id = JStr ''c3'', item_url = JStr ''http://x/3.jpg''\<rparr>,
               None,
               Some \<lparr>item_id = JStr ''c4'', item_url = JStr ''http://x/4.jpg''\<rparr>]))))) = 1 \<and>
   length (filter (\<lambda>c. cat_external_id c = Some ''c4'')
     (cats (store_after (seedCats sample_engine
        (store_after (seedCats sample_engine empty_store
           (Some [Some \<lparr>item_id = JStr ''c1'', item_url = JStr ''http://x/1.jpg''\<rparr>,
                  Some \<lparr>item_id = JStr ''c2'', item_url = JStr ''http://x/2.jpg''\<rparr>])))
        (Some [Some \<lparr>item_id = JStr ''c2'', item_url = JStr ''http://x/2.jpg''\<rparr>,
               Some \<lparr>item_id = JStr ''c3'', item_url = JStr ''http://x/3.jpg''\<rparr>,
               None,
               Some \<lparr>item_id = JStr ''c4'', item_url = JStr ''http://x/4.jpg''\<rparr>]))))) = 0 \<and>
   cats (store_after (seedCats sample_engine
        (store_after (seedCats sample_engine empty_store
           (Some [Some \<lparr>item_id = JStr ''c1'', item_url = JStr ''http://x/1.jpg''\<rparr>,
                  Some \<lparr>item_id = JStr ''c2'', item_url = JStr ''http://x/2.jpg''\<rparr>])))
        (Some [Some \<lparr>item_id = JStr ''c1'', item_url = JStr ''http://x/1.jpg''\<rparr>,
               Some \<lparr>item_id = JStr ''c2'', item_url = JStr ''http://x/2.jpg''\<rparr>])))
     = cats (store_after (seedCats sample_engine empty_store
           (Some [Some \<lparr>item_id = JStr ''c1'', item_url = JStr ''http://x/1.jpg''\<rparr>,
                  Some \<lparr>item_id = JStr ''c2'', item_url = JStr ''http://x/2.jpg''\<rparr>])))"
proof -
  let ?xs = "[Some \<lparr>item_id = JStr ''c1'', item_url = JStr ''http://x/1.jpg''\<rparr>,
              Some \<lparr>item_id = JStr ''c2'', item_url = JStr ''http://x/2.jpg''\<rparr>]"
  let ?ys = "[Some \<lparr>item_id = JStr ''c2'', item_url = JStr ''http://x/2.jpg''\<rparr>,
              Some \<lparr>item_id = JStr ''c3'', item_url = JStr ''http://x/3.jpg''\<rparr>,
              None,
              Some \<lparr>item_id = JStr ''c4'', item_url = JStr ''http://x/4.jpg''\<rparr>]"
  have nf: "\<forall>u i. \<not> fault sample_engine (InsertOrIgnoreCat u i)"
    by (simp add: sample_engine_def)
  have uniq: "distinct (stored_external_ids (cats empty_store))"
    by (simp add: empty_store_def stored_external_ids_def)
  note t = seedCats_one_row_per_external_id [OF nf uniq, of ?xs ?ys]
  have c2: "''c2'' \<in> set (stored_external_ids (cats empty_store)) \<or>
            (\<exists>x \<in> set (queued_items ?xs @ queued_items ?ys).
                seed_external_id sample_engine x = Some ''c2'' \<and>
                seed_image_url sample_engine x \<noteq> None)"
    by (simp add: seed_external_id_def seed_image_url_def)
  have c4: "\<not> (''c4'' \<in> set (stored_external_ids (cats empty_store)) \<or>
            (\<exists>x \<in> set (queued_items ?xs @ queued_items ?ys).
                seed_external_id sample_engine x = Some ''c4'' \<and>
                seed_image_url sample_engine x \<noteq> None))"
    by (simp add: seed_external_id_def seed_image_url_def empty_store_def stored_external_ids_def)
  have ids: "\<forall>x \<in> set (queued_items ?xs). seed_external_id sample_engine x \<noteq> None"
    by (simp add: seed_external_id_def)
  from t have all: "\<forall>e. length (filter (\<lambda>c. cat_external_id c = Some e)
     (cats (store_after (seedCats sample_engine
        (store_after (seedCats sample_engine empty_store (Some ?xs))) (Some ?ys))))) =
      (if e \<in> set (stored_external_ids (cats empty_store)) \<or>
          (\<exists>x \<in> set (queued_items ?xs @ queued_items ?ys).
              seed_external_id sample_engine x = Some e \<and> seed_image_url sample_engine x \<noteq> None)
       then 1 else 0)"
    by (rule conjunct1)
  from all [rule_format, of "''c2''"] c2 have one: "length (filter (\<lambda>c. cat_external_id c = Some ''c2'')
     (cats (store_after (seedCats sample_engine
        (store_after (seedCats sample_engine empty_store (Some ?xs))) (Some ?ys))))) = 1"
    by (simp only: if_True)
  from all [rule_format, of "''c4''"] c4 have zero: "length (filter (\<lambda>c. cat_external_id c = Some ''c4'')
     (cats (store_after (seedCats sample_engine
        (store_after (seedCats sample_engine empty_store (Some ?xs))) (Some ?ys))))) = 0"
    by (simp only: if_False)
  from t ids have idem: "cats (store_after (seedCats sample_engine
        (store_after (seedCats sample_engine empty_store (Some ?xs))) (Some ?xs)))
     = cats (store_after (seedCats sample_engine empty_store (Some ?xs)))"
    by blast
  from uniq one zero idem show ?thesis by (intro conjI)
qed

section \<open>Store failures\<close>

lemma seedCats_reply:
  "items \<noteq> [] \<Longrightarrow> None \<notin> set items \<Longrightarrow>
   reply (seedCats E s (Some items)) = Response 200 (SeedCount 0)"
  by (simp add: seedCats_def Let_def forEach_insert_thrown)

lemma clearAll_reply:
  "reply (clearAll E s) = Response 200 (SuccessMessage ''Database cleared'')"
  by (simp add: clearAll_def)

text \<open>
  C6. On an engine that fails every statement, at the sample store: the three deletes of
  \<^verbatim>\<open>POST /api/clear\<close> fail and nothing is deleted, the insert of \<^verbatim>\<open>POST /api/cats\<close> fails
  and nothing is inserted, and both handlers answer with their success response, not with
  a server error.
\<close>

theorem clearAll_and_seedCats_report_success_on_failure:
  "db_run failing_engine DeleteVotes sample_store = Inl SqlFailure \<and>
   db_run failing_engine DeleteMonthlyWinners sample_store = Inl SqlFailure \<and>
   db_run failing_engine DeleteCats sample_store = Inl SqlFailure \<and>
   reply (clearAll failing_engine sample_store) = Response 200 (SuccessMessage ''Database cleared'') \<and>
   store_after (clearAll failing_engine sample_store) = sample_store \<and>
   db_run failing_engine (InsertOrIgnoreCat (JStr ''http://x/9.jpg'') (JStr ''c9'')) sample_store
     = Inl SqlFailure \<and>
   reply (seedCats failing_engine sample_store
            (Some [Some \<lparr>item_id = JStr ''c9'', item_url = JStr ''http://x/9.jpg''\<rparr>]))
     = Response 200 (SeedCount 0) \<and>
   store_after (seedCats failing_engine sample_store
            (Some [Some \<lparr>item_id = JStr ''c9'', item_url = JStr ''http://x/9.jpg''\<rparr>]))
     = sample_store"
  by (simp add: clearAll_def run_logged_def seedCats_def run_inserts_def insert_callback_def
        db_run_def failing_engine_def)

text \<open>
  The handlers that answer from inside the callback do report a failure: when the statement
  of \<^verbatim>\<open>GET /api/cats\<close>, of \<^verbatim>\<open>GET /api/winner\<close> or of a valid \<^verbatim>\<open>POST /api/votes\<close> fails,
  the answer is 500 with the handler's fixed message. The other two answer before their
  statements run, so their answer does not depend on the engine.
\<close>

theorem store_failure_responses:
  "(\<forall>e. db_all E s = Inl e \<longrightarrow>
        reply (listCats E s) = Response 500 (ErrorBody ''Failed to fetch cats'')) \<and>
   (\<forall>e. db_get E (currentMonth now) s = Inl e \<longrightarrow>
        reply (getCurrentWinner E now s) = Response 500 (ErrorBody ''Failed to fetch winner'')) \<and>
   (\<forall>e. truthy (body_cat_id b) \<and> body_vote_type b \<in> {JStr ''upvote'', JStr ''downvote''} \<and>
        db_run E (InsertVote (body_cat_id b) (body_vote_type b)) s = Inl e \<longrightarrow>
        reply (submitVote E s b) = Response 500 (ErrorBody ''Failed to add vote'') \<and>
        store_after (submitVote E s b) = s) \<and>
   reply (clearAll E s) = Response 200 (SuccessMessage ''Database cleared'') \<and>
   (items \<noteq> [] \<and> None \<notin> set items \<longrightarrow>
      (\<exists>n. reply (seedCats E s (Some items)) = Response 200 (SeedCount n)))"
proof -
  have a: "\<forall>e. db_all E s = Inl e \<longrightarrow>
        reply (listCats E s) = Response 500 (ErrorBody ''Failed to fetch cats'')"
    by (simp add: listCats_def)
  have b: "\<forall>e. db_get E (currentMonth now) s = Inl e \<longrightarrow>
        reply (getCurrentWinner E now s) = Response 500 (ErrorBody ''Failed to fetch winner'')"
    by (simp add: getCurrentWinner_def)
  have c: "\<forall>e. truthy (body_cat_id b) \<and> body_vote_type b \<in> {JStr ''upvote'', JStr ''downvote''} \<and>
        db_run E (InsertVote (body_cat_id b) (body_vote_type b)) s = Inl e \<longrightarrow>
        reply (submitVote E s b) = Response 500 (ErrorBody ''Failed to add vote'') \<and>
        store_after (submitVote E s b) = s"
    by (auto simp: submitVote_def array_includes_def)
  have d: "items \<noteq> [] \<and> None \<notin> set items \<longrightarrow>
      (\<exists>n. reply (seedCats E s (Some items)) = Response 200 (SeedCount n))"
    by (simp add: seedCats_reply)
  from a b c d clearAll_reply show ?thesis by blast
qed

text \<open>
  The same on the failing engine for the two queries and the seed request, and on the sample
  engine for a vote that violates the foreign key.
\<close>

theorem store_failure_responses_witness:
  "db_all failing_engine sample_store = Inl SqlFailure \<and>
   reply (listCats failing_engine sample_store) = Response 500 (ErrorBody ''Failed to fetch cats'') \<and>
   db_get failing_engine (currentMonth sample_time) sample_store = Inl SqlFailure \<and>
   reply (getCurrentWinner failing_engine sample_time sample_store)
     = Response 500 (ErrorBody ''Failed to fetch winner'') \<and>
   db_run sample_engine (InsertVote (JNum 5) (JStr ''upvote'')) sample_store = Inl SqlConstraint \<and>
   reply (submitVote sample_engine sample_store \<lparr>body_cat_id = JNum 5, body_vote_type = JStr ''upvote''\<rparr>)
     = Response 500 (ErrorBody ''Failed to add vote'') \<and>
   (\<exists>n. reply (seedCats failing_engine sample_store (Some [Some \<lparr>item_id = JStr ''c9'', item_url = JStr ''u''\<rparr>]))
     = Response 200 (SeedCount n))"
proof -
  let ?b = "\<lparr>body_cat_id = JNum 5, body_vote_type = JStr ''upvote''\<rparr>"
  have l: "db_all failing_engine sample_store = Inl SqlFailure"
    by (simp add: db_all_def failing_engine_def)
  have g: "db_get failing_engine (currentMonth sample_time) sample_store = Inl SqlFailure"
    by (simp add: db_get_def failing_engine_def)
  have v: "db_run sample_engine (InsertVote (JNum 5) (JStr ''upvote'')) sample_store = Inl SqlConstraint"
    by (simp add: db_run_def insert_vote_def sample_engine_def sample_store_def)
  note f = store_failure_responses [of failing_engine sample_store sample_time ?b
             "[Some \<lparr>item_id = JStr ''c9'', item_url = JStr ''u''\<rparr>]"]
  note h = store_failure_responses [of sample_engine sample_store sample_time ?b "[]"]
  from f l have r1: "reply (listCats failing_engine sample_store) = Response 500 (ErrorBody ''Failed to fetch cats'')"
    by blast
  from f g have r2: "reply (getCurrentWinner failing_engine sample_time sample_store)
     = Response 500 (ErrorBody ''Failed to fetch winner'')"
    by blast
  from h v have r3: "reply (submitVote sample_engine sample_store ?b)
     = Response 500 (ErrorBody ''Failed to add vote'')"
    by simp
  have ne: "[Some \<lparr>item_id = JStr ''c9'', item_url = JStr ''u''\<rparr>] \<noteq> [] \<and>
            None \<notin> set [Some \<lparr>item_id = JStr ''c9'', item_url = JStr ''u''\<rparr>]"
    by simp
  from f ne have r4: "\<exists>n. reply (seedCats failing_engine sample_store (Some [Some \<lparr>item_id = JStr ''c9'', item_url = JStr ''u''\<rparr>]))
     = Response 200 (SeedCount n)"
    by blast
  from l g v r1 r2 r3 r4 show ?thesis by blast
qed

section \<open>Clearing the Store\<close>

text \<open>
  C8. For every Store, when the three deletes do not fail, \<^verbatim>\<open>POST /api/clear\<close> issues
  the deletes of votes, monthly winners and cats in that order and leaves all three tables
  empty; a following \<^verbatim>\<open>GET /api/cats\<close> answers the empty list and a following
  \<^verbatim>\<open>GET /api/winner\<close> answers null.
\<close>

theorem clearAll_empties_store:
  assumes "\<not> fault E DeleteVotes" and "\<not> fault E DeleteMonthlyWinners" and "\<not> fault E DeleteCats"
  shows "issued (clearAll E s) = [DeleteVotes, DeleteMonthlyWinners, DeleteCats] \<and>
         votes (store_after (clearAll E s)) = [] \<and>
         monthly_winners (store_after (clearAll E s)) = [] \<and>
         cats (store_after (clearAll E s)) = [] \<and>
         (\<not> fault E SelectCatsWithVotes \<longrightarrow>
            reply (listCats E (store_after (clearAll E s))) = Response 200 (CatRows [])) \<and>
         (\<not> fault E (SelectWinner (currentMonth now)) \<longrightarrow>
            reply (getCurrentWinner E now (store_after (clearAll E s))) = Response 200 (WinnerBody None))"
proof -
  let ?s3 = "s\<lparr>votes := [], monthly_winners := [], cats := []\<rparr>"
  have st: "store_after (clearAll E s) = ?s3"
    using assms by (simp add: clearAll_def run_logged_def db_run_def delete_cats_def)
  have l: "\<not> fault E SelectCatsWithVotes \<longrightarrow> reply (listCats E ?s3) = Response 200 (CatRows [])"
    by (simp add: listCats_def db_all_def select_cats_def order_by_desc_def)
  have w: "\<not> fault E (SelectWinner (currentMonth now)) \<longrightarrow>
            reply (getCurrentWinner E now ?s3) = Response 200 (WinnerBody None)"
    by (simp add: getCurrentWinner_def db_get_def select_winner_def join_cats_def order_by_desc_def)
  show ?thesis using st l w by (simp add: clearAll_def)
qed

text \<open>The theorem at the sample store, whose three tables are not empty.\<close>

theorem clearAll_empties_store_witness:
  "\<not> fault sample_engine DeleteVotes \<and> \<not> fault sample_engine DeleteMonthlyWinners \<and>
   \<not> fault sample_engine DeleteCats \<and> \<not> fault sample_engine SelectCatsWithVotes \<and>
   \<not> fault sample_engine (SelectWinner (currentMonth sample_time)) \<and>
   cats sample_store \<noteq> [] \<and> votes sample_store \<noteq> [] \<and> monthly_winners sample_store \<noteq> [] \<and>
   cats (store_after (clearAll sample_engine sample_store)) = [] \<and>
   votes (store_after (clearAll sample_engine sample_store)) = [] \<and>
   monthly_winners (store_after (clearAll sample_engine sample_store)) = [] \<and>
   reply (listCats sample_engine (store_after (clearAll sample_engine sample_store)))
     = Response 200 (CatRows []) \<and>
   reply (getCurrentWinner sample_engine sample_time (store_after (clearAll sample_engine sample_store)))
     = Response 200 (WinnerBody None)"
proof -
  have nf: "\<And>q. \<not> fault sample_engine q"
    by (simp add: sample_engine_def)
  have ne: "cats sample_store \<noteq> [] \<and> votes sample_store \<noteq> [] \<and> monthly_winners sample_store \<noteq> []"
    by (simp add: sample_store_def)
  from clearAll_empties_store [OF nf nf nf, of sample_store sample_time] nf ne
  show ?thesis by simp
qed

section \<open>The winner shown by the client\<close>

lemma winner_fold_bound:
  "maxScore acc \<le> maxScore (foldl winner_step acc cs) \<and>
   (\<forall>c \<in> set cs. catScore c \<le> maxScore (foldl winner_step acc cs))"
proof (induction cs arbitrary: acc)
  case Nil
  show ?case by simp
next
  case (Cons c cs)
  have step: "maxScore acc \<le> maxScore (winner_step acc c) \<and> catScore c \<le> maxScore (winner_step acc c)"
    by (simp add: winner_step_def catScore_def)
  from Cons.IH [of "winner_step acc c"] step show ?case
    by force
qed

lemma winner_fold_origin:
  "foldl winner_step acc cs = acc \<or>
   (\<exists>w \<in> set cs. foldl winner_step acc cs = Some w \<and> maxScore acc < catScore w)"
proof (induction cs arbitrary: acc)
  case Nil
  show ?case by simp
next
  case (Cons c cs)
  show ?case
  proof (cases "catScore c > maxScore acc")
    case True
    then have st: "winner_step acc c = Some c" by (simp add: winner_step_def)
    from Cons.IH [of "Some c"] True st show ?thesis
      by (auto simp: catScore_def)
  next
    case False
    then have st: "winner_step acc c = acc" by (simp add: winner_step_def)
    from Cons.IH [of acc] st show ?thesis by auto
  qed
qed

text \<open>
  C10, as stated, at the empty list while the provider is loading: the reduction yields
  null, but the screen shows the spinner, not the no-winner state.
\<close>

theorem winner_screen_loading_counterexample:
  "winner [] = None \<and> WinnerScreen [] True \<noteq> NoWinner"
  by (simp add: winner_def WinnerScreen_def)

text \<open>
  C10, amended. For every list of cats, the reduction of \<^verbatim>\<open>WinnerScreen\<close> yields null
  exactly when no cat has a strictly positive net score (upvotes minus downvotes); otherwise
  it yields a cat of the list with a strictly positive and maximal net score. When it
  yields null and the provider is not loading, the screen shows the no-winner state; while
  the provider is loading the screen shows the spinner.
\<close>

theorem winner_is_positive_maximum:
  "(winner cs = None \<longleftrightarrow> (\<forall>c \<in> set cs. catScore c \<le> 0)) \<and>
   (\<forall>w. winner cs = Some w \<longrightarrow>
        w \<in> set cs \<and> 0 < catScore w \<and> (\<forall>c \<in> set cs. catScore c \<le> catScore w)) \<and>
   (winner cs = None \<longrightarrow> WinnerScreen cs False = NoWinner) \<and>
   WinnerScreen cs True = Spinner"
proof -
  have bound: "\<forall>c \<in> set cs. catScore c \<le> maxScore (winner cs)"
    using winner_fold_bound [of None cs] by (simp add: winner_def)
  have origin: "winner cs = None \<or> (\<exists>w \<in> set cs. winner cs = Some w \<and> 0 < catScore w)"
    using winner_fold_origin [of None cs] by (simp add: winner_def)
  have a: "winner cs = None \<longleftrightarrow> (\<forall>c \<in> set cs. catScore c \<le> 0)"
  proof
    assume "winner cs = None"
    with bound show "\<forall>c \<in> set cs. catScore c \<le> 0" by simp
  next
    assume neg: "\<forall>c \<in> set cs. catScore c \<le> 0"
    with origin show "winner cs = None" by force
  qed
  have b: "\<forall>w. winner cs = Some w \<longrightarrow>
        w \<in> set cs \<and> 0 < catScore w \<and> (\<forall>c \<in> set cs. catScore c \<le> catScore w)"
    using bound origin by (auto simp: catScore_def)
  have c: "winner cs = None \<longrightarrow> WinnerScreen cs False = NoWinner"
    by (simp add: WinnerScreen_def)
  have d: "WinnerScreen cs True = Spinner"
    by (simp add: WinnerScreen_def Let_def)
  from a b c d show ?thesis by blast
qed

text \<open>The theorem at a list with a positive maximum and at a list with none.\<close>

theorem winner_is_positive_maximum_witness:
  "winner [\<lparr>cc_id = 1, cc_image_url = ''a'', cc_upvotes = Some 2, cc_downvotes = Some 1\<rparr>,
           \<lparr>cc_id = 2, cc_image_url = ''b'', cc_upvotes = Some 5, cc_downvotes = None\<rparr>]
     = Some \<lparr>cc_id = 2, cc_image_url = ''b'', cc_upvotes = Some 5, cc_downvotes = None\<rparr> \<and>
   0 < catScore \<lparr>cc_id = 2, cc_image_url = ''b'', cc_upvotes = Some 5, cc_downvotes = None\<rparr> \<and>
   catScore \<lparr>cc_id = 1, cc_image_url = ''a'', cc_upvotes = Some 2, cc_downvotes = Some 1\<rparr>
     \<le> catScore \<lparr>cc_id = 2, cc_image_url = ''b'', cc_upvotes = Some 5, cc_downvotes = None\<rparr> \<and>
   catScore \<lparr>cc_id = 3, cc_image_url = ''c'', cc_upvotes = Some 1, cc_downvotes = Some 1\<rparr> \<le> 0 \<and>
   winner [\<lparr>cc_id = 3, cc_image_url = ''c'', cc_upvotes = Some 1, cc_downvotes = Some 1\<rparr>] = None \<and>
   WinnerScreen [\<lparr>cc_id = 3, cc_image_url = ''c'', cc_upvotes = Some 1, cc_downvotes = Some 1\<rparr>] False
     = NoWinner"
proof -
  let ?a = "\<lparr>cc_id = 1, cc_image_url = ''a'', cc_upvotes = Some 2, cc_downvotes = Some 1\<rparr>"
  let ?b = "\<lparr>cc_id = 2, cc_image_url = ''b'', cc_upvotes = Some 5, cc_downvotes = None\<rparr>"
  let ?c = "\<lparr>cc_id = 3, cc_image_url = ''c'', cc_upvotes = Some 1, cc_downvotes = Some 1\<rparr>"
  have w: "winner [?a, ?b] = Some ?b"
    by (simp add: winner_def winner_step_def catScore_def)
  have n: "\<forall>c \<in> set [?c]. catScore c \<le> 0"
    by (simp add: catScore_def)
  from winner_is_positive_maximum [of "[?a, ?b]"] w
  have "0 < catScore ?b \<and> catScore ?a \<le> catScore ?b" by simp
  moreover from winner_is_positive_maximum [of "[?c]"] n
  have "winner [?c] = None \<and> WinnerScreen [?c] False = NoWinner" by blast
  ultimately show ?thesis using w n by simp
qed

end
